theory Spec2Isabelle
  imports Main
begin

section \<open>Strings as the quest helper uses them\<close>

text \<open>
  The cog \<^verbatim>\<open>PokemonQuestHelper\<close> (file \<^verbatim>\<open>cogs/pokemonquesthelper.py\<close>) works on Python
  \<^verbatim>\<open>str\<close> values. A text is modelled as a \<open>string\<close>, each \<open>char\<close> standing for one code
  point in the range 0..255 (so \<open>length\<close> counts code points, as Python does). On this
  range \<^verbatim>\<open>str.lower()\<close> maps one code point to one code point, \<^verbatim>\<open>\s\<close> and \<^verbatim>\<open>\d\<close> of the
  \<^verbatim>\<open>re\<close> module are the finite sets below, and \<^verbatim>\<open>re.IGNORECASE\<close> on the letters of the
  three keywords is equality after lowering. Code points above 255 are outside the model.
\<close>

definition lower_char :: "char \<Rightarrow> char" where
  \<comment> \<open>\<^verbatim>\<open>str.lower()\<close> on one code point: A-Z and the upper-case letters of Latin-1.\<close>
  "lower_char c =
     (let n = (of_char c :: nat)
      in if (65 \<le> n \<and> n \<le> 90) \<or> (192 \<le> n \<and> n \<le> 214) \<or> (216 \<le> n \<and> n \<le> 222)
         then char_of (n + 32) else c)"

definition lower :: "string \<Rightarrow> string" where
  "lower s = map lower_char s"

fun startswith :: "string \<Rightarrow> string \<Rightarrow> bool" where
  \<comment> \<open>\<^verbatim>\<open>s.startswith(p)\<close>\<close>
  "startswith s [] = True"
| "startswith [] (p # ps) = False"
| "startswith (c # cs) (p # ps) = (c = p \<and> startswith cs ps)"

fun str_in :: "string \<Rightarrow> string \<Rightarrow> bool" where
  \<comment> \<open>Python's \<^verbatim>\<open>a in s\<close> on strings: \<open>a\<close> occurs in \<open>s\<close> as a contiguous block.\<close>
  "str_in a [] = (a = [])"
| "str_in a (c # cs) = (startswith (c # cs) a \<or> str_in a cs)"

definition truthy :: "string option \<Rightarrow> bool" where
  \<comment> \<open>Truth value of a variable holding \<^verbatim>\<open>None\<close> or a \<^verbatim>\<open>str\<close>: \<^verbatim>\<open>None\<close> and \<^verbatim>\<open>''\<close> are false.\<close>
  "truthy v = (case v of None \<Rightarrow> False | Some s \<Rightarrow> s \<noteq> [])"

section \<open>Regions\<close>

definition get_region :: "int \<Rightarrow> string" where
  "get_region dex =
     (if 1 \<le> dex \<and> dex \<le> 151 then ''Kanto''
      else if 152 \<le> dex \<and> dex \<le> 251 then ''Johto''
      else if 252 \<le> dex \<and> dex \<le> 386 then ''Hoenn''
      else if 387 \<le> dex \<and> dex \<le> 493 then ''Sinnoh''
      else if 494 \<le> dex \<and> dex \<le> 649 then ''Unova''
      else if 650 \<le> dex \<and> dex \<le> 721 then ''Kalos''
      else if 722 \<le> dex \<and> dex \<le> 809 then ''Alola''
      else if 810 \<le> dex \<and> dex \<le> 905 then ''Galar''
      else if 906 \<le> dex \<and> dex \<le> 1025 then ''Paldea''
      else ''Unknown'')"

section \<open>Parsing one quest line\<close>

record quest_info =
  q_text :: string
  q_type :: string
  q_region :: "string option"
  q_pokemon_type :: "string option"
  q_count :: int
  q_gender :: "string option"

datatype py_error = NameError | ValueError

definition regions :: "string list" where
  "regions = [''Kanto'', ''Johto'', ''Hoenn'', ''Sinnoh'', ''Unova'', ''Kalos'', ''Alola'',
              ''Galar'', ''Paldea'']"

definition types :: "string list" where
  "types = [''Normal'', ''Fire'', ''Water'', ''Grass'', ''Electric'', ''Ice'', ''Fighting'',
            ''Poison'', ''Ground'', ''Flying'', ''Psychic'', ''Bug'', ''Rock'', ''Ghost'',
            ''Dragon'', ''Dark'', ''Steel'', ''Fairy'']"

definition keyword_chain :: "string \<Rightarrow> string option \<times> string option" where
  \<comment> \<open>The \<^verbatim>\<open>if\<close>/\<^verbatim>\<open>elif\<close> chain of lines 104-123 on the lowered text. The result is the pair of
      the locals \<^verbatim>\<open>quest_type\<close> and \<^verbatim>\<open>gender\<close> after the chain; for \<^verbatim>\<open>gender\<close>, \<open>None\<close>
      means that the name was never bound.\<close>
  "keyword_chain quest_text_lower =
     (if str_in ''breed'' quest_text_lower then (Some ''breed'', None)
      else if str_in ''release'' quest_text_lower then (Some ''release'', None)
      else if str_in ''female'' quest_text_lower then (Some ''gender'', Some ''female'')
      else if str_in ''male'' quest_text_lower then (Some ''gender'', Some ''male'')
      else if str_in ''unknown gender'' quest_text_lower \<or> str_in ''genderless'' quest_text_lower
        then (Some ''gender'', Some ''genderless'')
      else (None, None))"

definition detect_region :: "string \<Rightarrow> string option" where
  \<comment> \<open>Lines 126-131: the first region of the list that occurs in the text as it is written.\<close>
  "detect_region quest_text = find (\<lambda>region. str_in region quest_text) regions"

definition detect_type :: "string \<Rightarrow> string option" where
  \<comment> \<open>Lines 134-141: the first type of the list whose lowered name occurs in the lowered
      text, or that occurs as \<^verbatim>\<open><Type>-type\<close> in the text as written.\<close>
  "detect_type quest_text =
     find (\<lambda>ptype. str_in (lower ptype) (lower quest_text) \<or> str_in (ptype @ ''-type'') quest_text)
       types"

subsection \<open>The count pattern\<close>

text \<open>
  Line 154 searches \<^verbatim>\<open>(?:Catch|Release|Breed)\s+(\d+)\<close> with \<^verbatim>\<open>re.IGNORECASE\<close>. The search
  tries every start position from the left; at one position the alternatives are tried in
  their order, then \<^verbatim>\<open>\s+\<close> and \<^verbatim>\<open>\d+\<close> are greedy. White space and digits are disjoint,
  so giving back white space can never help: the match takes the whole run of white space
  and then the whole run of digits.
\<close>

definition is_space :: "char \<Rightarrow> bool" where
  "is_space c =
     (let n = (of_char c :: nat)
      in (9 \<le> n \<and> n \<le> 13) \<or> (28 \<le> n \<and> n \<le> 32) \<or> n = 133 \<or> n = 160)"

definition is_digit :: "char \<Rightarrow> bool" where
  "is_digit c = (let n = (of_char c :: nat) in 48 \<le> n \<and> n \<le> 57)"

fun match_literal :: "string \<Rightarrow> string \<Rightarrow> string option" where
  \<comment> \<open>Match a literal at the start of the text, ignoring case; the result is the rest.\<close>
  "match_literal [] s = Some s"
| "match_literal (p # ps) [] = None"
| "match_literal (p # ps) (c # cs) =
     (if lower_char c = lower_char p then match_literal ps cs else None)"

definition match_tail :: "string \<Rightarrow> string option" where
  \<comment> \<open>\<^verbatim>\<open>\s+(\d+)\<close> at the start of the text; the result is group 1.\<close>
  "match_tail s =
     (let ws = takeWhile is_space s; ds = takeWhile is_digit (dropWhile is_space s)
      in if ws \<noteq> [] \<and> ds \<noteq> [] then Some ds else None)"

fun match_alternatives :: "string list \<Rightarrow> string \<Rightarrow> string option" where
  "match_alternatives [] s = None"
| "match_alternatives (kw # kws) s =
     (case (case match_literal kw s of None \<Rightarrow> None | Some r \<Rightarrow> match_tail r) of
        Some ds \<Rightarrow> Some ds
      | None \<Rightarrow> match_alternatives kws s)"

definition match_here :: "string \<Rightarrow> string option" where
  "match_here s = match_alternatives [''Catch'', ''Release'', ''Breed''] s"

fun re_search :: "string \<Rightarrow> string option" where
  "re_search [] = match_here []"
| "re_search (c # cs) = (case match_here (c # cs) of Some ds \<Rightarrow> Some ds | None \<Rightarrow> re_search cs)"

definition digit_value :: "char \<Rightarrow> int" where
  "digit_value c = int (of_char c) - 48"

definition int_of_digits :: "string \<Rightarrow> int" where
  \<comment> \<open>The decimal value of a string of digits.\<close>
  "int_of_digits ds = foldl (\<lambda>acc c. 10 * acc + digit_value c) 0 ds"

definition int_max_str_digits :: nat where
  \<comment> \<open>The default of \<^verbatim>\<open>sys.get_int_max_str_digits()\<close> in CPython.\<close>
  "int_max_str_digits = 4300"

definition py_int :: "string \<Rightarrow> py_error + int" where
  \<comment> \<open>\<^verbatim>\<open>int(s)\<close> on a non-empty string of decimal digits: \<^verbatim>\<open>ValueError\<close> when \<^verbatim>\<open>s\<close> has more
      digits than the limit (leading zeros count), the decimal value otherwise.\<close>
  "py_int ds =
     (if int_max_str_digits < length ds then Inl ValueError else Inr (int_of_digits ds))"

definition extract_count :: "string \<Rightarrow> py_error + int" where
  \<comment> \<open>Lines 153-156; line 156 may raise.\<close>
  "extract_count quest_text =
     (case re_search quest_text of None \<Rightarrow> Inr 0 | Some ds \<Rightarrow> py_int ds)"

subsection \<open>\<^verbatim>\<open>parse_quest\<close>\<close>

definition final_type :: "string option \<Rightarrow> string option \<Rightarrow> string option \<Rightarrow> string \<Rightarrow> string" where
  \<comment> \<open>Lines 144-150: \<^verbatim>\<open>quest_type\<close> after the fallback for a chain that set nothing.\<close>
  "final_type quest_type has_region has_type quest_text_lower =
     (if \<not> truthy quest_type then
        (if truthy has_region \<or> truthy has_type then ''type_region''
         else if str_in ''catch'' quest_text_lower then ''generic_catch''
         else ''unknown'')
      else (case quest_type of Some t \<Rightarrow> t | None \<Rightarrow> []))"

definition quest_type_and_gender :: "string \<Rightarrow> string \<times> string option" where
  \<comment> \<open>Lines 101-150: the locals \<^verbatim>\<open>quest_type\<close> and \<^verbatim>\<open>gender\<close> when line 150 is done (\<open>None\<close>
      for a \<^verbatim>\<open>gender\<close> that was never bound).\<close>
  "quest_type_and_gender quest_text =
     (let quest_text_lower = lower quest_text;
          (quest_type0, gender) = keyword_chain quest_text_lower
      in (final_type quest_type0 (detect_region quest_text) (detect_type quest_text)
            quest_text_lower,
          gender))"

definition parse_quest :: "string \<Rightarrow> py_error + quest_info" where
  \<comment> \<open>Lines 101-150 cannot raise. Line 156 raises \<^verbatim>\<open>ValueError\<close> when \<^verbatim>\<open>int\<close> refuses the
      captured digits. Reading the local \<^verbatim>\<open>gender\<close> on line 165 raises \<^verbatim>\<open>NameError\<close> when no
      branch bound it; the conditional expression reads it only when
      \<^verbatim>\<open>quest_type == 'gender'\<close>.\<close>
  "parse_quest quest_text =
     (let quest_text_lower = lower quest_text;
          (quest_type0, gender) = keyword_chain quest_text_lower;
          has_region = detect_region quest_text;
          has_type = detect_type quest_text;
          quest_type = final_type quest_type0 has_region has_type quest_text_lower
      in case extract_count quest_text of
           Inl e \<Rightarrow> Inl e
         | Inr count \<Rightarrow>
             if quest_type = ''gender'' then
               (case gender of
                  None \<Rightarrow> Inl NameError
                | Some g \<Rightarrow>
                    Inr \<lparr>q_text = quest_text, q_type = quest_type, q_region = has_region,
                         q_pokemon_type = has_type, q_count = count, q_gender = Some g\<rparr>)
             else
               Inr \<lparr>q_text = quest_text, q_type = quest_type, q_region = has_region,
                    q_pokemon_type = has_type, q_count = count, q_gender = None\<rparr>)"

section \<open>The tables\<close>

text \<open>
  \<^verbatim>\<open>load_data\<close> fills three tables. \<^verbatim>\<open>pokemon_data\<close> is a dictionary from dex to a row;
  its iteration order is the insertion order, so it is an association list here.
  \<^verbatim>\<open>spawn_rates\<close> maps a dex to its chance label, \<^verbatim>\<open>gender_data\<close> maps a gender to a set
  of names.
\<close>

record pokemon =
  name :: string
  type1 :: string
  type2 :: "string option"
  dex :: int
  region :: string

record match = pokemon +
  spawn_rate :: string

record cog =
  pokemon_data :: "(int \<times> pokemon) list"
  spawn_rates :: "int \<rightharpoonup> string"
  gender_data :: "string \<rightharpoonup> string set"

definition wf_pokemon_data :: "(int \<times> pokemon) list \<Rightarrow> bool" where
  \<comment> \<open>What \<^verbatim>\<open>load_data\<close> (lines 44-52) establishes: a dictionary has each key once, and the
      row stored under a key carries that key as its \<^verbatim>\<open>dex\<close> and the region derived from it.\<close>
  "wf_pokemon_data rows =
     (distinct (map fst rows) \<and>
      list_all (\<lambda>(k, data). dex data = k \<and> region data = get_region k) rows)"

section \<open>Matching\<close>

definition is_regional_variant :: "string \<Rightarrow> bool" where
  "is_regional_variant pokemon_name =
     (let regional_prefixes = [''alolan'', ''galarian'', ''hisuian'', ''paldean''];
          name_lower = lower pokemon_name
      in list_ex (\<lambda>prefix. str_in prefix name_lower) regional_prefixes)"

definition spawn_priorities :: "string list" where
  "spawn_priorities = [''1/225'', ''1/337'', ''1/674'']"

definition with_spawn_rate :: "pokemon \<Rightarrow> string \<Rightarrow> match" where
  \<comment> \<open>\<^verbatim>\<open>{**data, 'spawn_rate': rate}\<close>\<close>
  "with_spawn_rate data rate =
     \<lparr>name = name data, type1 = type1 data, type2 = type2 data, dex = dex data,
      region = region data, spawn_rate = rate\<rparr>"

definition py_slice_to :: "'a list \<Rightarrow> int \<Rightarrow> 'a list" where
  \<comment> \<open>\<^verbatim>\<open>xs[:n]\<close>; a negative \<open>n\<close> counts from the end.\<close>
  "py_slice_to xs n =
     (if 0 \<le> n then take (nat n) xs else take (nat (int (length xs) + n)) xs)"

subsection \<open>Gender quests\<close>

fun gender_scan ::
  "cog \<Rightarrow> string set \<Rightarrow> int \<Rightarrow> string \<Rightarrow> (int \<times> pokemon) list \<Rightarrow> match list \<Rightarrow> match list"
where
  \<comment> \<open>The inner loop of lines 190-201 over the rows still to visit.\<close>
  "gender_scan self gender_pokemon limit priority [] matches = matches"
| "gender_scan self gender_pokemon limit priority ((k, data) # rest) matches =
     (if limit \<le> int (length matches) then matches
      else if list_ex (\<lambda>m. dex m = k) matches
        then gender_scan self gender_pokemon limit priority rest matches
      else if is_regional_variant (name data)
        then gender_scan self gender_pokemon limit priority rest matches
      else (case spawn_rates self k of
              Some rate \<Rightarrow>
                if name data \<in> gender_pokemon \<and> rate = priority
                then gender_scan self gender_pokemon limit priority rest
                       (matches @ [with_spawn_rate data rate])
                else gender_scan self gender_pokemon limit priority rest matches
            | None \<Rightarrow> gender_scan self gender_pokemon limit priority rest matches))"

fun gender_tiers :: "cog \<Rightarrow> string set \<Rightarrow> int \<Rightarrow> string list \<Rightarrow> match list \<Rightarrow> match list" where
  \<comment> \<open>The outer loop of lines 186-201.\<close>
  "gender_tiers self gender_pokemon limit [] matches = matches"
| "gender_tiers self gender_pokemon limit (priority # ps) matches =
     (if limit \<le> int (length matches) then matches
      else gender_tiers self gender_pokemon limit ps
             (gender_scan self gender_pokemon limit priority (pokemon_data self) matches))"

subsection \<open>Type and region quests\<close>

definition criteria_append :: "quest_info \<Rightarrow> pokemon \<Rightarrow> bool" where
  \<comment> \<open>Lines 227-242: whether the row is appended. The chain has three branches and no
      \<^verbatim>\<open>else\<close>.\<close>
  "criteria_append quest_info data =
     (let region_match =
            (\<not> truthy (q_region quest_info) \<or> Some (region data) = q_region quest_info);
          type_match =
            (\<not> truthy (q_pokemon_type quest_info) \<or>
             (Some (type1 data) = q_pokemon_type quest_info \<or>
              type2 data = q_pokemon_type quest_info))
      in if truthy (q_region quest_info) \<and> truthy (q_pokemon_type quest_info)
           then region_match \<and> type_match
         else if truthy (q_pokemon_type quest_info) then type_match
         else if truthy (q_region quest_info) then region_match
         else False)"

fun type_region_scan ::
  "cog \<Rightarrow> quest_info \<Rightarrow> int \<Rightarrow> string \<Rightarrow> (int \<times> pokemon) list \<Rightarrow> match list \<Rightarrow> match list"
where
  \<comment> \<open>The inner loop of lines 213-242 over the rows still to visit.\<close>
  "type_region_scan self quest_info limit priority [] matches = matches"
| "type_region_scan self quest_info limit priority ((k, data) # rest) matches =
     (if limit \<le> int (length matches) then matches
      else if list_ex (\<lambda>m. dex m = k) matches
        then type_region_scan self quest_info limit priority rest matches
      else if is_regional_variant (name data)
        then type_region_scan self quest_info limit priority rest matches
      else (case spawn_rates self k of
              None \<Rightarrow> type_region_scan self quest_info limit priority rest matches
            | Some rate \<Rightarrow>
                if rate \<noteq> priority
                then type_region_scan self quest_info limit priority rest matches
                else if criteria_append quest_info data
                then type_region_scan self quest_info limit priority rest
                       (matches @ [with_spawn_rate data rate])
                else type_region_scan self quest_info limit priority rest matches))"

fun type_region_tiers ::
  "cog \<Rightarrow> quest_info \<Rightarrow> int \<Rightarrow> string list \<Rightarrow> match list \<Rightarrow> match list"
where
  \<comment> \<open>The outer loop of lines 209-242.\<close>
  "type_region_tiers self quest_info limit [] matches = matches"
| "type_region_tiers self quest_info limit (priority # ps) matches =
     (if limit \<le> int (length matches) then matches
      else type_region_tiers self quest_info limit ps
             (type_region_scan self quest_info limit priority (pokemon_data self) matches))"

subsection \<open>\<^verbatim>\<open>find_matching_pokemon\<close>\<close>

definition gender_set :: "cog \<Rightarrow> string option \<Rightarrow> string set" where
  \<comment> \<open>\<^verbatim>\<open>self.gender_data.get(gender, set())\<close>, where \<^verbatim>\<open>gender\<close> may be \<^verbatim>\<open>None\<close>.\<close>
  "gender_set self gender =
     (case gender of
        None \<Rightarrow> {}
      | Some g \<Rightarrow> (case gender_data self g of None \<Rightarrow> {} | Some names \<Rightarrow> names))"

definition find_matching_pokemon :: "cog \<Rightarrow> quest_info \<Rightarrow> int \<Rightarrow> match list" where
  "find_matching_pokemon self quest_info limit =
     (let quest_type = q_type quest_info
      in if quest_type \<in> set [''breed'', ''release'', ''generic_catch'', ''unknown''] then []
         else if quest_type = ''gender'' then
           py_slice_to
             (gender_tiers self (gender_set self (q_gender quest_info)) limit spawn_priorities [])
             limit
         else if quest_type = ''type_region'' then
           py_slice_to (type_region_tiers self quest_info limit spawn_priorities []) limit
         else py_slice_to [] limit)"

section \<open>The loops in one shape\<close>

text \<open>
  Both inner loops visit the rows in table order, stop at the limit, skip a row whose dex
  is already among the matches, and append the row with the current tier when a test
  accepts it. \<open>scan_rows\<close> is that loop for any test, \<open>scan_tiers\<close> the loop over the
  tiers around it; the two tests follow.
\<close>

fun scan_rows ::
  "(int \<Rightarrow> pokemon \<Rightarrow> bool) \<Rightarrow> int \<Rightarrow> string \<Rightarrow> (int \<times> pokemon) list \<Rightarrow> match list \<Rightarrow> match list"
where
  "scan_rows ok limit priority [] matches = matches"
| "scan_rows ok limit priority ((k, data) # rest) matches =
     (if limit \<le> int (length matches) then matches
      else if list_ex (\<lambda>m. dex m = k) matches then scan_rows ok limit priority rest matches
      else if ok k data
        then scan_rows ok limit priority rest (matches @ [with_spawn_rate data priority])
      else scan_rows ok limit priority rest matches)"

fun scan_tiers ::
  "(string \<Rightarrow> int \<Rightarrow> pokemon \<Rightarrow> bool) \<Rightarrow> int \<Rightarrow> (int \<times> pokemon) list \<Rightarrow> string list \<Rightarrow>
   match list \<Rightarrow> match list"
where
  "scan_tiers ok limit rows [] matches = matches"
| "scan_tiers ok limit rows (priority # ps) matches =
     (if limit \<le> int (length matches) then matches
      else scan_tiers ok limit rows ps (scan_rows (ok priority) limit priority rows matches))"

definition gender_ok :: "cog \<Rightarrow> string set \<Rightarrow> string \<Rightarrow> int \<Rightarrow> pokemon \<Rightarrow> bool" where
  "gender_ok self gender_pokemon priority k data =
     (\<not> is_regional_variant (name data) \<and> name data \<in> gender_pokemon \<and>
      spawn_rates self k = Some priority)"

definition type_region_ok :: "cog \<Rightarrow> quest_info \<Rightarrow> string \<Rightarrow> int \<Rightarrow> pokemon \<Rightarrow> bool" where
  "type_region_ok self quest_info priority k data =
     (\<not> is_regional_variant (name data) \<and> spawn_rates self k = Some priority \<and>
      criteria_append quest_info data)"

definition tier_major ::
  "(string \<Rightarrow> int \<Rightarrow> pokemon \<Rightarrow> bool) \<Rightarrow> (int \<times> pokemon) list \<Rightarrow> string list \<Rightarrow> match list"
where
  \<comment> \<open>The accepted rows tier after tier, inside a tier in table order.\<close>
  "tier_major ok rows tiers =
     concat (map (\<lambda>priority.
                    map (\<lambda>(k, data). with_spawn_rate data priority)
                      (filter (\<lambda>(k, data). ok priority k data) rows))
               tiers)"

definition accept :: "cog \<Rightarrow> quest_info \<Rightarrow> string \<Rightarrow> int \<Rightarrow> pokemon \<Rightarrow> bool" where
  \<comment> \<open>The test of the category at hand; the other categories accept nothing.\<close>
  "accept self qi =
     (if q_type qi = ''gender'' then gender_ok self (gender_set self (q_gender qi))
      else if q_type qi = ''type_region'' then type_region_ok self qi
      else (\<lambda>p k data. False))"

definition tier_eligible :: "cog \<Rightarrow> string \<Rightarrow> int \<Rightarrow> pokemon \<Rightarrow> bool" where
  \<comment> \<open>A row with a chance entry for the tier whose name is not a regional variant.\<close>
  "tier_eligible self priority k data =
     (\<not> is_regional_variant (name data) \<and> spawn_rates self k = Some priority)"

section \<open>The classification as the specification words it\<close>

definition contains_ci :: "string \<Rightarrow> string \<Rightarrow> bool" where
  \<comment> \<open>A case-insensitive substring test.\<close>
  "contains_ci token line = str_in (lower token) (lower line)"

definition spec_region_names :: "string list" where
  \<comment> \<open>The nine region names in the order of the region table.\<close>
  "spec_region_names = [''Kanto'', ''Johto'', ''Hoenn'', ''Sinnoh'', ''Unova'', ''Kalos'',
                        ''Alola'', ''Galar'', ''Paldea'']"

definition names_region :: "string \<Rightarrow> bool" where
  \<comment> \<open>The line contains, as written, the name of one of the nine regions.\<close>
  "names_region line = (\<exists>r \<in> set spec_region_names. str_in r line)"

definition names_type :: "string \<Rightarrow> bool" where
  \<comment> \<open>The line contains one of the type names in any case, or \<^verbatim>\<open><Type>-type\<close> as written.\<close>
  "names_type line = (\<exists>t \<in> set types. contains_ci t line \<or> str_in (t @ ''-type'') line)"

definition first_named :: "string list \<Rightarrow> (string \<Rightarrow> bool) \<Rightarrow> string option \<Rightarrow> bool" where
  \<comment> \<open>\<open>v\<close> is the first name of the list that occurs, or null when none occurs.\<close>
  "first_named names occurs v =
     (case v of
        None \<Rightarrow> \<forall>n \<in> set names. \<not> occurs n
      | Some n \<Rightarrow> \<exists>pre post. names = pre @ n # post \<and> occurs n \<and> (\<forall>m \<in> set pre. \<not> occurs m))"

definition spec_classification :: "string \<Rightarrow> string \<times> string option" where
  \<comment> \<open>Category and gender by first-match-wins precedence.\<close>
  "spec_classification line =
     (if contains_ci ''breed'' line then (''breed'', None)
      else if contains_ci ''release'' line then (''release'', None)
      else if contains_ci ''female'' line then (''gender'', Some ''female'')
      else if contains_ci ''male'' line then (''gender'', Some ''male'')
      else if contains_ci ''unknown gender'' line \<or> contains_ci ''genderless'' line
        then (''gender'', Some ''genderless'')
      else if names_region line \<or> names_type line then (''type_region'', None)
      else if contains_ci ''catch'' line then (''generic_catch'', None)
      else (''unknown'', None))"

definition count_pattern_here :: "string \<Rightarrow> string \<Rightarrow> bool" where
  \<comment> \<open>The text starts with one of the three keywords in any case, then white space, then
      the integer \<open>ds\<close>: a run of digits that ends where the digits end.\<close>
  "count_pattern_here s ds =
     (\<exists>w ws rest.
        s = w @ ws @ ds @ rest \<and>
        (lower w = lower ''Catch'' \<or> lower w = lower ''Release'' \<or> lower w = lower ''Breed'') \<and>
        ws \<noteq> [] \<and> list_all is_space ws \<and>
        ds \<noteq> [] \<and> list_all is_digit ds \<and>
        (case rest of [] \<Rightarrow> True | c # cs \<Rightarrow> \<not> is_digit c))"

definition tail_pattern :: "string \<Rightarrow> string \<Rightarrow> bool" where
  \<comment> \<open>The part of the pattern after the keyword: white space, then the integer \<open>ds\<close>.\<close>
  "tail_pattern r ds =
     (\<exists>ws rest. r = ws @ ds @ rest \<and> ws \<noteq> [] \<and> list_all is_space ws \<and>
        ds \<noteq> [] \<and> list_all is_digit ds \<and> (case rest of [] \<Rightarrow> True | c # cs \<Rightarrow> \<not> is_digit c))"

definition keyword_pattern :: "string \<Rightarrow> string \<Rightarrow> string \<Rightarrow> bool" where
  \<comment> \<open>The pattern for one keyword.\<close>
  "keyword_pattern kw s ds = (\<exists>w r. s = w @ r \<and> lower w = lower kw \<and> tail_pattern r ds)"

definition count_pattern_at :: "string \<Rightarrow> nat \<Rightarrow> string \<Rightarrow> bool" where
  \<comment> \<open>An occurrence of the pattern that starts at position \<open>i\<close> of the line.\<close>
  "count_pattern_at line i ds = (i \<le> length line \<and> count_pattern_here (drop i line) ds)"

definition first_count_pattern :: "string \<Rightarrow> nat \<Rightarrow> string \<Rightarrow> bool" where
  \<comment> \<open>The leftmost occurrence of the pattern starts at \<open>i\<close> and captures \<open>ds\<close>.\<close>
  "first_count_pattern line i ds =
     (count_pattern_at line i ds \<and> (\<forall>j < i. \<forall>ds'. \<not> count_pattern_at line j ds'))"

definition count_too_long :: "string \<Rightarrow> bool" where
  \<comment> \<open>The first occurrence of the count pattern captures more than 4300 digits.\<close>
  "count_too_long line = (\<exists>i ds. first_count_pattern line i ds \<and> 4300 < length ds)"

section \<open>Example tables and lines\<close>

definition pokemon_line :: "string \<Rightarrow> string \<Rightarrow> string" where
  \<comment> \<open>A line that ends in the word written with e-acute (code point 233) and a tail.\<close>
  "pokemon_line before after = before @ ''Pok'' @ [CHR 0xE9] @ ''mon'' @ after"

definition ex_rows :: "(int \<times> pokemon) list" where
  "ex_rows =
     [(1, \<lparr>name = ''Bulbasaur'', type1 = ''Grass'', type2 = Some ''Poison'', dex = 1,
           region = ''Kanto''\<rparr>),
      (152, \<lparr>name = ''Chikorita'', type1 = ''Grass'', type2 = None, dex = 152,
             region = ''Johto''\<rparr>),
      (4, \<lparr>name = ''Charmander'', type1 = ''Fire'', type2 = None, dex = 4,
           region = ''Kanto''\<rparr>),
      (19, \<lparr>name = ''Alolan Rattata'', type1 = ''Dark'', type2 = Some ''Normal'', dex = 19,
            region = ''Kanto''\<rparr>),
      (7, \<lparr>name = ''Squirtle'', type1 = ''Water'', type2 = None, dex = 7,
           region = ''Kanto''\<rparr>)]"

definition ex_cog :: cog where
  "ex_cog =
     \<lparr>pokemon_data = ex_rows,
      spawn_rates = [1 \<mapsto> ''1/337'', 152 \<mapsto> ''1/225'', 4 \<mapsto> ''1/225'', 19 \<mapsto> ''1/225'',
                     7 \<mapsto> ''1/100''],
      gender_data = [''female'' \<mapsto> {''Bulbasaur'', ''Charmander'', ''Alolan Rattata''}]\<rparr>"

definition ex_quest :: "string option \<Rightarrow> string option \<Rightarrow> quest_info" where
  "ex_quest r t =
     \<lparr>q_text = ''1. Catch 2'', q_type = ''type_region'', q_region = r, q_pokemon_type = t,
      q_count = 2, q_gender = None\<rparr>"

definition ex_gender_quest :: quest_info where
  "ex_gender_quest =
     \<lparr>q_text = ''2. Catch 3 Female'', q_type = ''gender'', q_region = None,
      q_pokemon_type = None, q_count = 3, q_gender = Some ''female''\<rparr>"

section \<open>Facts about strings\<close>

lemma startswith_iff: "startswith s p \<longleftrightarrow> (\<exists>post. s = p @ post)"
  by (induction s p rule: startswith.induct) auto

lemma str_in_iff: "str_in a s \<longleftrightarrow> (\<exists>pre post. s = pre @ a @ post)"
proof (induction s)
  case Nil
  then show ?case by auto
next
  case (Cons c cs)
  show ?case
  proof
    assume "str_in a (c # cs)"
    then consider "startswith (c # cs) a" | "str_in a cs" by auto
    then show "\<exists>pre post. c # cs = pre @ a @ post"
    proof cases
      case 1
      then obtain post where "c # cs = a @ post" by (auto simp: startswith_iff)
      then have "c # cs = [] @ a @ post" by simp
      then show ?thesis by blast
    next
      case 2
      then obtain pre post where "cs = pre @ a @ post" using Cons.IH by blast
      then have "c # cs = (c # pre) @ a @ post" by simp
      then show ?thesis by blast
    qed
  next
    assume "\<exists>pre post. c # cs = pre @ a @ post"
    then obtain pre post where e: "c # cs = pre @ a @ post" by blast
    show "str_in a (c # cs)"
    proof (cases pre)
      case Nil
      with e have "startswith (c # cs) a" by (auto simp: startswith_iff)
      then show ?thesis by simp
    next
      case (Cons p ps)
      with e have "cs = ps @ a @ post" by simp
      then have "str_in a cs" using Cons.IH by blast
      then show ?thesis by simp
    qed
  qed
qed

lemma find_Some_in_set: "find P xs = Some x \<Longrightarrow> x \<in> set xs \<and> P x"
  by (induction xs) (auto split: if_splits)

section \<open>Facts about the parser\<close>

lemma keyword_chain_cases:
  "keyword_chain s \<in> {(Some ''breed'', None), (Some ''release'', None),
     (Some ''gender'', Some ''female''), (Some ''gender'', Some ''male''),
     (Some ''gender'', Some ''genderless''), (None, None)}"
  by (simp add: keyword_chain_def)

lemma final_type_gender:
  "final_type (fst (keyword_chain s)) r t s = ''gender'' \<longleftrightarrow>
   fst (keyword_chain s) = Some ''gender''"
  using keyword_chain_cases [of s]
  by (auto simp: final_type_def truthy_def)

lemma keyword_chain_gender_bound:
  "fst (keyword_chain s) = Some ''gender'' \<Longrightarrow> snd (keyword_chain s) \<noteq> None"
  using keyword_chain_cases [of s] by auto

lemma keyword_chain_gender_only:
  "snd (keyword_chain s) \<noteq> None \<Longrightarrow> fst (keyword_chain s) = Some ''gender''"
  using keyword_chain_cases [of s] by auto

lemma quest_type_and_gender_eq:
  "quest_type_and_gender t =
     (final_type (fst (keyword_chain (lower t))) (detect_region t) (detect_type t) (lower t),
      snd (keyword_chain (lower t)))"
  by (simp add: quest_type_and_gender_def Let_def split_beta)

lemma quest_type_and_gender_bound:
  "(fst (quest_type_and_gender t) = ''gender'') = (snd (quest_type_and_gender t) \<noteq> None)"
  using keyword_chain_gender_bound [of "lower t"] keyword_chain_gender_only [of "lower t"]
  by (auto simp: quest_type_and_gender_eq final_type_gender)

lemma parse_quest_eq:
  "parse_quest t =
     (case extract_count t of
        Inl e \<Rightarrow> Inl e
      | Inr n \<Rightarrow>
          Inr \<lparr>q_text = t, q_type = fst (quest_type_and_gender t), q_region = detect_region t,
               q_pokemon_type = detect_type t, q_count = n,
               q_gender = snd (quest_type_and_gender t)\<rparr>)"
proof (cases "fst (keyword_chain (lower t)) = Some ''gender''")
  case True
  then obtain g where g: "snd (keyword_chain (lower t)) = Some g"
    using keyword_chain_gender_bound by blast
  with True have kc: "keyword_chain (lower t) = (Some ''gender'', Some g)"
    by (simp add: prod_eq_iff)
  have ft: "final_type (Some ''gender'') (detect_region t) (detect_type t) (lower t) = ''gender''"
    by (simp add: final_type_def truthy_def)
  show ?thesis
    by (simp add: parse_quest_def quest_type_and_gender_eq Let_def kc ft split: sum.splits)
next
  case False
  then have g: "snd (keyword_chain (lower t)) = None"
    using keyword_chain_gender_only by blast
  obtain qt where kc: "keyword_chain (lower t) = (qt, None)"
    using g by (cases "keyword_chain (lower t)") simp
  have "final_type qt (detect_region t) (detect_type t) (lower t) \<noteq> ''gender''"
    using False final_type_gender [of "lower t" "detect_region t" "detect_type t"] kc by simp
  then show ?thesis
    by (simp add: parse_quest_def quest_type_and_gender_eq Let_def kc split: sum.splits)
qed

lemma lower_keywords:
  "lower ''breed'' = ''breed''" "lower ''release'' = ''release''" "lower ''female'' = ''female''"
  "lower ''male'' = ''male''" "lower ''unknown gender'' = ''unknown gender''"
  "lower ''genderless'' = ''genderless''" "lower ''catch'' = ''catch''"
  by code_simp+

lemma truthy_simps: "truthy None = False" "truthy (Some s) = (s \<noteq> [])"
  by (simp_all add: truthy_def)

lemma first_named_find: "first_named xs P (find P xs)"
proof (induction xs)
  case Nil
  show ?case by (simp add: first_named_def)
next
  case (Cons x xs)
  show ?case
  proof (cases "P x")
    case True
    then have "x # xs = [] @ x # xs \<and> P x \<and> (\<forall>m \<in> set []. \<not> P m)" by simp
    then have "\<exists>pre post. x # xs = pre @ x # post \<and> P x \<and> (\<forall>m \<in> set pre. \<not> P m)" by blast
    with True show ?thesis by (simp add: first_named_def)
  next
    case False
    show ?thesis
    proof (cases "find P xs")
      case None
      with Cons False show ?thesis by (simp add: first_named_def)
    next
      case (Some n)
      with Cons obtain pre post where p: "xs = pre @ n # post" "P n" "\<forall>m \<in> set pre. \<not> P m"
        by (auto simp: first_named_def)
      with False have "x # xs = (x # pre) @ n # post \<and> P n \<and> (\<forall>m \<in> set (x # pre). \<not> P m)"
        by simp
      then have "\<exists>pre post. x # xs = pre @ n # post \<and> P n \<and> (\<forall>m \<in> set pre. \<not> P m)" by blast
      with False Some show ?thesis by (simp add: first_named_def)
    qed
  qed
qed

lemma first_named_Some_iff:
  "first_named xs P v \<Longrightarrow> v \<noteq> None \<longleftrightarrow> (\<exists>x \<in> set xs. P x)"
  by (cases v) (auto simp: first_named_def)

lemma first_named_nonempty:
  "first_named xs P (Some n) \<Longrightarrow> n \<in> set xs"
  by (auto simp: first_named_def)

lemma regions_spec: "regions = spec_region_names"
  by (simp add: regions_def spec_region_names_def)

lemma detect_region_named: "first_named spec_region_names (\<lambda>r. str_in r t) (detect_region t)"
  unfolding detect_region_def regions_spec by (rule first_named_find)

lemma detect_type_named:
  "first_named types (\<lambda>p. contains_ci p t \<or> str_in (p @ ''-type'') t) (detect_type t)"
  unfolding detect_type_def contains_ci_def by (rule first_named_find)

lemma detect_region_names: "detect_region t \<noteq> None \<longleftrightarrow> names_region t"
  unfolding names_region_def by (rule first_named_Some_iff [OF detect_region_named])

lemma detect_type_names: "detect_type t \<noteq> None \<longleftrightarrow> names_type t"
  unfolding names_type_def by (rule first_named_Some_iff [OF detect_type_named])

lemma detect_region_truthy: "truthy (detect_region t) \<longleftrightarrow> names_region t"
proof (cases "detect_region t")
  case None
  with detect_region_names [of t] show ?thesis by (simp add: truthy_def)
next
  case (Some r)
  with detect_region_named [of t] have "r \<in> set spec_region_names"
    by (simp add: first_named_nonempty)
  then have "r \<noteq> []" by (auto simp: spec_region_names_def)
  with Some detect_region_names [of t] show ?thesis by (simp add: truthy_def)
qed

lemma detect_type_truthy: "truthy (detect_type t) \<longleftrightarrow> names_type t"
proof (cases "detect_type t")
  case None
  with detect_type_names [of t] show ?thesis by (simp add: truthy_def)
next
  case (Some r)
  with detect_type_named [of t] have "r \<in> set types"
    by (simp add: first_named_nonempty)
  then have "r \<noteq> []" by (auto simp: types_def)
  with Some detect_type_names [of t] show ?thesis by (simp add: truthy_def)
qed

lemma classification_refines: "quest_type_and_gender t = spec_classification t"
  by (simp add: quest_type_and_gender_eq spec_classification_def contains_ci_def lower_keywords
      keyword_chain_def final_type_def detect_region_truthy detect_type_truthy truthy_simps)


section \<open>Facts about the count pattern\<close>

lemma lower_length: "lower w = lower kw \<Longrightarrow> length w = length kw"
  unfolding lower_def by (rule map_eq_imp_length_eq)

lemma match_literal_iff:
  "match_literal kw s = Some r \<longleftrightarrow> (\<exists>w. s = w @ r \<and> lower w = lower kw)"
proof (induction kw s rule: match_literal.induct)
  case (1 s)
  show ?case by (auto simp: lower_def)
next
  case (2 p ps)
  show ?case by (auto simp: lower_def)
next
  case (3 p ps c cs)
  show ?case
  proof
    assume "match_literal (p # ps) (c # cs) = Some r"
    then have c: "lower_char c = lower_char p" and "match_literal ps cs = Some r"
      by (auto split: if_splits)
    with 3 obtain w where "cs = w @ r" "lower w = lower ps" by auto
    with c have "c # cs = (c # w) @ r \<and> lower (c # w) = lower (p # ps)"
      by (simp add: lower_def)
    then show "\<exists>w. c # cs = w @ r \<and> lower w = lower (p # ps)" by blast
  next
    assume "\<exists>w. c # cs = w @ r \<and> lower w = lower (p # ps)"
    then obtain w where w: "c # cs = w @ r" "lower w = lower (p # ps)" by blast
    from w(2) obtain x xs where x: "w = x # xs" "lower_char x = lower_char p" "lower xs = lower ps"
      by (cases w) (auto simp: lower_def)
    with w(1) have "c = x" "cs = xs @ r" by auto
    with x 3 show "match_literal (p # ps) (c # cs) = Some r" by auto
  qed
qed

lemma digit_not_space: "is_digit c \<Longrightarrow> \<not> is_space c"
  by (auto simp: is_digit_def is_space_def Let_def)

lemma match_tail_iff: "match_tail r = Some ds \<longleftrightarrow> tail_pattern r ds"
proof
  assume m: "match_tail r = Some ds"
  let ?ws = "takeWhile is_space r"
  let ?r' = "dropWhile is_space r"
  let ?rest = "dropWhile is_digit ?r'"
  from m have ws: "?ws \<noteq> []" and ds: "ds = takeWhile is_digit ?r'" "ds \<noteq> []"
    by (auto simp: match_tail_def Let_def split: if_splits)
  have "r = ?ws @ ds @ ?rest" unfolding ds by simp
  moreover have "list_all is_space ?ws" by (auto simp: list_all_iff dest: set_takeWhileD)
  moreover have "list_all is_digit ds" unfolding ds by (auto simp: list_all_iff dest: set_takeWhileD)
  moreover have "case ?rest of [] \<Rightarrow> True | c # cs \<Rightarrow> \<not> is_digit c"
    by (auto split: list.splits simp: dropWhile_eq_Cons_conv)
  ultimately show "tail_pattern r ds" unfolding tail_pattern_def using ws ds(2) by blast
next
  assume "tail_pattern r ds"
  then obtain ws rest where r: "r = ws @ ds @ rest" and ws: "ws \<noteq> []" "list_all is_space ws"
    and ds: "ds \<noteq> []" "list_all is_digit ds"
    and rest: "case rest of [] \<Rightarrow> True | c # cs \<Rightarrow> \<not> is_digit c"
    unfolding tail_pattern_def by blast
  from ds obtain d ds' where d: "ds = d # ds'" "is_digit d" by (cases ds) auto
  then have nd: "\<not> is_space d" by (simp add: digit_not_space)
  have tw: "takeWhile is_space r = ws"
    unfolding r using ws(2) d(1) nd by (simp add: takeWhile_append2 list_all_iff)
  have dw: "dropWhile is_space r = ds @ rest"
    unfolding r using ws(2) d(1) nd by (simp add: dropWhile_append2 list_all_iff)
  have "takeWhile is_digit rest = []" using rest by (cases rest) auto
  then have td: "takeWhile is_digit (ds @ rest) = ds"
    using ds(2) by (simp add: takeWhile_append2 list_all_iff)
  show "match_tail r = Some ds"
    using ws(1) ds(1) by (simp add: match_tail_def Let_def tw dw td)
qed

lemma keyword_pattern_iff:
  "keyword_pattern kw s ds \<longleftrightarrow> (\<exists>r. match_literal kw s = Some r \<and> match_tail r = Some ds)"
  unfolding keyword_pattern_def match_literal_iff match_tail_iff by blast

lemma count_pattern_here_keywords:
  "count_pattern_here s ds \<longleftrightarrow>
     keyword_pattern ''Catch'' s ds \<or> keyword_pattern ''Release'' s ds \<or>
     keyword_pattern ''Breed'' s ds"
  unfolding count_pattern_here_def keyword_pattern_def tail_pattern_def by blast

lemma match_literal_first:
  "match_literal (a # as) s = Some r \<Longrightarrow> lower_char a \<noteq> lower_char b \<Longrightarrow>
   match_literal (b # bs) s = None"
  by (cases s) (auto split: if_splits)

lemma keyword_initials:
  "lower_char CHR ''C'' \<noteq> lower_char CHR ''R''" "lower_char CHR ''C'' \<noteq> lower_char CHR ''B''"
  "lower_char CHR ''R'' \<noteq> lower_char CHR ''B''" "lower_char CHR ''R'' \<noteq> lower_char CHR ''C''"
  "lower_char CHR ''B'' \<noteq> lower_char CHR ''C''" "lower_char CHR ''B'' \<noteq> lower_char CHR ''R''"
  by code_simp+

lemma match_here_iff: "match_here s = Some ds \<longleftrightarrow> count_pattern_here s ds"
proof -
  consider (c) r where "match_literal ''Catch'' s = Some r"
    | (r) r where "match_literal ''Release'' s = Some r"
    | (b) r where "match_literal ''Breed'' s = Some r"
    | (n) "match_literal ''Catch'' s = None" "match_literal ''Release'' s = None"
        "match_literal ''Breed'' s = None"
    by (cases "match_literal ''Catch'' s"; cases "match_literal ''Release'' s";
        cases "match_literal ''Breed'' s") auto
  then show ?thesis
  proof cases
    case c
    then have o: "match_literal ''Release'' s = None" "match_literal ''Breed'' s = None"
      by (auto intro: match_literal_first simp: keyword_initials)
    show ?thesis
      unfolding count_pattern_here_keywords keyword_pattern_iff match_here_def
      by (simp add: c o split: option.splits)
  next
    case r
    then have o: "match_literal ''Catch'' s = None" "match_literal ''Breed'' s = None"
      by (auto intro: match_literal_first simp: keyword_initials)
    show ?thesis
      unfolding count_pattern_here_keywords keyword_pattern_iff match_here_def
      by (simp add: r o split: option.splits)
  next
    case b
    then have o: "match_literal ''Catch'' s = None" "match_literal ''Release'' s = None"
      by (auto intro: match_literal_first simp: keyword_initials)
    show ?thesis
      unfolding count_pattern_here_keywords keyword_pattern_iff match_here_def
      by (simp add: b o split: option.splits)
  next
    case n
    show ?thesis
      unfolding count_pattern_here_keywords keyword_pattern_iff match_here_def
      by (simp add: n)
  qed
qed

lemma match_here_None: "(\<forall>ds. \<not> count_pattern_here s ds) \<Longrightarrow> match_here s = None"
  using match_here_iff [of s] by (cases "match_here s") auto

lemma re_search_first: "first_count_pattern line i ds \<Longrightarrow> re_search line = Some ds"
proof (induction line arbitrary: i)
  case Nil
  then show ?case
    by (simp add: first_count_pattern_def count_pattern_at_def match_here_iff)
next
  case (Cons c cs)
  show ?case
  proof (cases i)
    case 0
    with Cons.prems have "match_here (c # cs) = Some ds"
      by (simp add: first_count_pattern_def count_pattern_at_def match_here_iff)
    then show ?thesis by simp
  next
    case (Suc i')
    with Cons.prems have "\<forall>ds'. \<not> count_pattern_at (c # cs) 0 ds'"
      by (simp add: first_count_pattern_def)
    then have none: "match_here (c # cs) = None"
      by (intro match_here_None) (simp add: count_pattern_at_def)
    have "count_pattern_at cs i' ds"
      using Cons.prems Suc by (simp add: first_count_pattern_def count_pattern_at_def)
    moreover have "\<forall>j < i'. \<forall>ds'. \<not> count_pattern_at cs j ds'"
    proof (intro allI impI)
      fix j ds'
      assume "j < i'"
      then have "Suc j < i" using Suc by simp
      with Cons.prems have "\<not> count_pattern_at (c # cs) (Suc j) ds'"
        unfolding first_count_pattern_def by blast
      then show "\<not> count_pattern_at cs j ds'" by (simp add: count_pattern_at_def)
    qed
    ultimately have "first_count_pattern cs i' ds" by (simp add: first_count_pattern_def)
    from Cons.IH [OF this] none show ?thesis by simp
  qed
qed

lemma re_search_none: "(\<forall>i ds. \<not> count_pattern_at line i ds) \<Longrightarrow> re_search line = None"
proof (induction line)
  case Nil
  then have "\<forall>ds. \<not> count_pattern_here [] ds"
    by (auto simp: count_pattern_at_def)
  then show ?case by (simp add: match_here_None)
next
  case (Cons c cs)
  have "\<forall>ds. \<not> count_pattern_here (c # cs) ds"
  proof
    fix ds
    from Cons.prems have "\<not> count_pattern_at (c # cs) 0 ds" by blast
    then show "\<not> count_pattern_here (c # cs) ds" by (simp add: count_pattern_at_def)
  qed
  then have none: "match_here (c # cs) = None" by (rule match_here_None)
  have "\<forall>i ds. \<not> count_pattern_at cs i ds"
  proof (intro allI)
    fix i ds
    from Cons.prems have "\<not> count_pattern_at (c # cs) (Suc i) ds" by blast
    then show "\<not> count_pattern_at cs i ds" by (simp add: count_pattern_at_def)
  qed
  from Cons.IH [OF this] none show ?case by simp
qed

lemma exists_first_count_pattern:
  assumes "count_pattern_at line i ds"
  shows "\<exists>j ds'. first_count_pattern line j ds'"
proof -
  from assms have "\<exists>j. \<exists>ds'. count_pattern_at line j ds'" by blast
  then have "\<exists>j. (\<exists>ds'. count_pattern_at line j ds') \<and>
      (\<forall>k < j. \<not> (\<exists>ds'. count_pattern_at line k ds'))"
    by (simp only: exists_least_iff [symmetric])
  then show ?thesis unfolding first_count_pattern_def by blast
qed

lemma re_search_None_iff:
  "re_search line = None \<longleftrightarrow> (\<forall>i ds. \<not> count_pattern_at line i ds)"
proof
  assume none: "re_search line = None"
  show "\<forall>i ds. \<not> count_pattern_at line i ds"
  proof (intro allI notI)
    fix i ds
    assume "count_pattern_at line i ds"
    from exists_first_count_pattern [OF this] obtain j ds' where "first_count_pattern line j ds'"
      by blast
    then have "re_search line = Some ds'" by (rule re_search_first)
    with none show False by simp
  qed
next
  assume "\<forall>i ds. \<not> count_pattern_at line i ds"
  then show "re_search line = None" by (rule re_search_none)
qed

lemma re_search_Some_iff:
  "re_search line = Some ds \<longleftrightarrow> (\<exists>i. first_count_pattern line i ds)"
proof
  assume some: "re_search line = Some ds"
  then have "\<not> (\<forall>i ds. \<not> count_pattern_at line i ds)"
    using re_search_None_iff [of line] by simp
  then obtain i ds0 where "count_pattern_at line i ds0" by blast
  from exists_first_count_pattern [OF this] obtain j ds' where f: "first_count_pattern line j ds'"
    by blast
  then have "re_search line = Some ds'" by (rule re_search_first)
  with some have "ds' = ds" by simp
  with f show "\<exists>i. first_count_pattern line i ds" by blast
next
  assume "\<exists>i. first_count_pattern line i ds"
  then show "re_search line = Some ds" by (auto dest: re_search_first)
qed

lemma count_too_long_iff:
  "count_too_long line \<longleftrightarrow> (\<exists>ds. re_search line = Some ds \<and> 4300 < length ds)"
  unfolding count_too_long_def re_search_Some_iff by blast

lemma extract_count_Inl:
  "extract_count t = Inl e \<longleftrightarrow> e = ValueError \<and> count_too_long t"
  unfolding count_too_long_iff
  by (cases "re_search t") (auto simp: extract_count_def py_int_def int_max_str_digits_def)

lemma extract_count_Inr:
  "extract_count t = Inr n \<longleftrightarrow>
     (re_search t = None \<and> n = 0) \<or>
     (\<exists>ds. re_search t = Some ds \<and> length ds \<le> 4300 \<and> n = int_of_digits ds)"
  by (cases "re_search t") (auto simp: extract_count_def py_int_def int_max_str_digits_def)

lemma parse_quest_Inl_iff: "parse_quest t = Inl e \<longleftrightarrow> e = ValueError \<and> count_too_long t"
proof (cases "extract_count t")
  case (Inl e')
  then have "e' = ValueError \<and> count_too_long t" by (simp add: extract_count_Inl)
  with Inl show ?thesis by (auto simp: parse_quest_eq)
next
  case (Inr n)
  then have "\<not> count_too_long t" using extract_count_Inl [of t ValueError] by simp
  with Inr show ?thesis by (simp add: parse_quest_eq)
qed

lemma parse_quest_returns_iff: "(\<exists>q. parse_quest t = Inr q) \<longleftrightarrow> \<not> count_too_long t"
proof (cases "parse_quest t")
  case (Inl e)
  then have "count_too_long t" using parse_quest_Inl_iff [of t e] by simp
  with Inl show ?thesis by simp
next
  case (Inr q)
  then have "\<not> count_too_long t" using parse_quest_Inl_iff [of t ValueError] by simp
  with Inr show ?thesis by simp
qed

lemma space_is_space: "is_space CHR '' ''"
  by code_simp

lemma count_pattern_here_replicate:
  assumes "0 < n" and "is_digit c"
    and "lower w = lower ''Catch'' \<or> lower w = lower ''Release'' \<or> lower w = lower ''Breed''"
  shows "count_pattern_here (w @ '' '' @ replicate n c) (replicate n c)"
proof -
  have "w @ '' '' @ replicate n c = w @ '' '' @ replicate n c @ []" by simp
  moreover have "list_all is_space '' ''" by (simp add: space_is_space)
  moreover have "list_all is_digit (replicate n c)" using assms(2) by (simp add: list_all_iff)
  moreover have "replicate n c \<noteq> []" using assms(1) by simp
  moreover have "'' '' \<noteq> []" by simp
  moreover have "case [] :: string of [] \<Rightarrow> True | c # cs \<Rightarrow> \<not> is_digit c" by simp
  ultimately show ?thesis unfolding count_pattern_here_def using assms(3) by blast
qed

lemma parse_quest_long_count:
  assumes "4300 < n" and "is_digit c"
    and "lower w = lower ''Catch'' \<or> lower w = lower ''Release'' \<or> lower w = lower ''Breed''"
  shows "first_count_pattern (w @ '' '' @ replicate n c) 0 (replicate n c)"
    and "parse_quest (w @ '' '' @ replicate n c) = Inl ValueError"
proof -
  let ?l = "w @ '' '' @ replicate n c"
  from assms(1) have "0 < n" by simp
  from count_pattern_here_replicate [OF this assms(2,3)]
  show f: "first_count_pattern ?l 0 (replicate n c)"
    by (simp add: first_count_pattern_def count_pattern_at_def)
  then have "first_count_pattern ?l 0 (replicate n c) \<and> 4300 < length (replicate n c)"
    using assms(1) by simp
  then have "count_too_long ?l" unfolding count_too_long_def by blast
  then show "parse_quest ?l = Inl ValueError" by (simp add: parse_quest_Inl_iff)
qed

lemma parse_breed_example:
  "parse_quest (pokemon_line ''Breed 5 '' []) =
     Inr \<lparr>q_text = pokemon_line ''Breed 5 '' [], q_type = ''breed'', q_region = None,
          q_pokemon_type = None, q_count = 5, q_gender = None\<rparr>"
  by code_simp

section \<open>Regions by dex number\<close>

text \<open>
  Claim C5. For every integer dex value \<open>d\<close>, \<open>get_region d\<close> is Kanto exactly for 1..151,
  Johto for 152..251, Hoenn for 252..386, Sinnoh for 387..493, Unova for 494..649, Kalos
  for 650..721, Alola for 722..809, Galar for 810..905, Paldea for 906..1025, and Unknown
  exactly for every \<open>d\<close> outside the nine ranges. As a HOL function it is pure and
  deterministic.
\<close>

theorem get_region_table:
  "(get_region d = ''Kanto'' \<longleftrightarrow> 1 \<le> d \<and> d \<le> 151) \<and>
   (get_region d = ''Johto'' \<longleftrightarrow> 152 \<le> d \<and> d \<le> 251) \<and>
   (get_region d = ''Hoenn'' \<longleftrightarrow> 252 \<le> d \<and> d \<le> 386) \<and>
   (get_region d = ''Sinnoh'' \<longleftrightarrow> 387 \<le> d \<and> d \<le> 493) \<and>
   (get_region d = ''Unova'' \<longleftrightarrow> 494 \<le> d \<and> d \<le> 649) \<and>
   (get_region d = ''Kalos'' \<longleftrightarrow> 650 \<le> d \<and> d \<le> 721) \<and>
   (get_region d = ''Alola'' \<longleftrightarrow> 722 \<le> d \<and> d \<le> 809) \<and>
   (get_region d = ''Galar'' \<longleftrightarrow> 810 \<le> d \<and> d \<le> 905) \<and>
   (get_region d = ''Paldea'' \<longleftrightarrow> 906 \<le> d \<and> d \<le> 1025) \<and>
   (get_region d = ''Unknown'' \<longleftrightarrow> d < 1 \<or> 1025 < d)"
  by (simp add: get_region_def) linarith

theorem get_region_table_witness:
  "get_region 151 = ''Kanto'' \<and> get_region 152 = ''Johto'' \<and> get_region 1026 = ''Unknown''"
  using get_region_table [of 151] get_region_table [of 152] get_region_table [of 1026]
  by simp

section \<open>Classification by precedence\<close>



section \<open>Errors of the parser\<close>

text \<open>
  Claim C10 says that \<open>parse_quest\<close> returns a descriptor for every input string. Line 156
  converts the captured digits with \<^verbatim>\<open>int\<close>, which raises \<^verbatim>\<open>ValueError\<close> on more than 4300
  digits, and nothing catches it: on Catch followed by 4301 digits no descriptor is
  returned.
\<close>

theorem parse_quest_value_error:
  "parse_quest (''Catch'' @ '' '' @ replicate 4301 (CHR ''1'')) = Inl ValueError"
proof (rule parse_quest_long_count(2))
  show "(4300 :: nat) < 4301" by simp
  show "is_digit (CHR ''1'')" by code_simp
  show "lower ''Catch'' = lower ''Catch'' \<or> lower ''Catch'' = lower ''Release'' \<or>
        lower ''Catch'' = lower ''Breed''" by simp
qed

text \<open>
  Claim C10 as amended. \<open>parse_quest\<close> never fails on an unbound \<^verbatim>\<open>gender\<close>: every branch
  that sets category gender binds it. It raises \<^verbatim>\<open>ValueError\<close> exactly when the first
  occurrence of the count pattern captures more than 4300 digits; for every other input
  string it returns a descriptor, whose category is unknown when no classification rule
  matches and which carries a gender value when its category is gender.
\<close>

theorem parse_quest_total:
  "parse_quest line \<noteq> Inl NameError \<and>
   (parse_quest line = Inl ValueError \<longleftrightarrow> count_too_long line) \<and>
   (\<not> count_too_long line \<longrightarrow>
      (\<exists>q. parse_quest line = Inr q \<and>
           (q_type q = ''gender'' \<longrightarrow> q_gender q \<noteq> None) \<and>
           (\<not> contains_ci ''breed'' line \<and> \<not> contains_ci ''release'' line \<and>
            \<not> contains_ci ''female'' line \<and> \<not> contains_ci ''male'' line \<and>
            \<not> contains_ci ''unknown gender'' line \<and> \<not> contains_ci ''genderless'' line \<and>
            \<not> names_region line \<and> \<not> names_type line \<and> \<not> contains_ci ''catch'' line \<longrightarrow>
              q_type q = ''unknown'')))"
proof (intro conjI impI)
  show "parse_quest line \<noteq> Inl NameError" by (simp add: parse_quest_Inl_iff)
  show "parse_quest line = Inl ValueError \<longleftrightarrow> count_too_long line"
    by (simp add: parse_quest_Inl_iff)
next
  assume "\<not> count_too_long line"
  then obtain q where q: "parse_quest line = Inr q" using parse_quest_returns_iff by blast
  then have c: "(q_type q, q_gender q) = quest_type_and_gender line"
    by (auto simp: parse_quest_eq split: sum.splits)
  have 1: "q_type q = ''gender'' \<longrightarrow> q_gender q \<noteq> None"
    using c quest_type_and_gender_bound [of line] by (simp add: prod_eq_iff)
  have 2: "\<not> contains_ci ''breed'' line \<and> \<not> contains_ci ''release'' line \<and>
            \<not> contains_ci ''female'' line \<and> \<not> contains_ci ''male'' line \<and>
            \<not> contains_ci ''unknown gender'' line \<and> \<not> contains_ci ''genderless'' line \<and>
            \<not> names_region line \<and> \<not> names_type line \<and> \<not> contains_ci ''catch'' line \<longrightarrow>
              q_type q = ''unknown''"
  proof
    assume "\<not> contains_ci ''breed'' line \<and> \<not> contains_ci ''release'' line \<and>
            \<not> contains_ci ''female'' line \<and> \<not> contains_ci ''male'' line \<and>
            \<not> contains_ci ''unknown gender'' line \<and> \<not> contains_ci ''genderless'' line \<and>
            \<not> names_region line \<and> \<not> names_type line \<and> \<not> contains_ci ''catch'' line"
    then have "spec_classification line = (''unknown'', None)"
      by (simp add: spec_classification_def)
    with c show "q_type q = ''unknown''" by (simp add: classification_refines prod_eq_iff)
  qed
  from q 1 2 show "\<exists>q. parse_quest line = Inr q \<and>
           (q_type q = ''gender'' \<longrightarrow> q_gender q \<noteq> None) \<and>
           (\<not> contains_ci ''breed'' line \<and> \<not> contains_ci ''release'' line \<and>
            \<not> contains_ci ''female'' line \<and> \<not> contains_ci ''male'' line \<and>
            \<not> contains_ci ''unknown gender'' line \<and> \<not> contains_ci ''genderless'' line \<and>
            \<not> names_region line \<and> \<not> names_type line \<and> \<not> contains_ci ''catch'' line \<longrightarrow>
              q_type q = ''unknown'')"
    by blast
qed

theorem parse_quest_total_witness:
  "\<not> count_too_long ''1. Hello there'' \<and>
   (\<exists>q. parse_quest ''1. Hello there'' = Inr q \<and> q_type q = ''unknown'')"
proof -
  let ?l = "''1. Hello there''"
  have "re_search ?l = None" by code_simp
  then have short: "\<not> count_too_long ?l" by (simp add: count_too_long_iff)
  have no_rule: "\<not> contains_ci ''breed'' ?l \<and> \<not> contains_ci ''release'' ?l \<and>
            \<not> contains_ci ''female'' ?l \<and> \<not> contains_ci ''male'' ?l \<and>
            \<not> contains_ci ''unknown gender'' ?l \<and> \<not> contains_ci ''genderless'' ?l \<and>
            \<not> names_region ?l \<and> \<not> names_type ?l \<and> \<not> contains_ci ''catch'' ?l"
    by code_simp
  from parse_quest_total [of ?l] short no_rule show ?thesis by blast
qed

section \<open>Gender descriptors and the region and type fields\<close>

text \<open>
  Claim C1 says that a descriptor with a gender value has neither a region nor a type.
  The region and type loops of lines 126-141 run for every line, whatever the keyword
  chain decided, so the line "Catch 3 Female Kanto Pokemon" (with e-acute) gets gender
  female together with region Kanto.
\<close>

theorem parse_quest_gender_with_region:
  "parse_quest (pokemon_line ''Catch 3 Female Kanto '' []) =
     Inr \<lparr>q_text = pokemon_line ''Catch 3 Female Kanto '' [], q_type = ''gender'',
          q_region = Some ''Kanto'', q_pokemon_type = None, q_count = 3,
          q_gender = Some ''female''\<rparr>"
  by code_simp

text \<open>
  Claim C1 as amended. For every line on which \<open>parse_quest\<close> returns a descriptor, the
  descriptor carries a gender value exactly when its category is gender; its region is
  the first of the nine region names, in their fixed order, that occurs in the line as
  written, and null when none occurs; its type is the first type name of the fixed list
  that occurs in the line in any case or as \<^verbatim>\<open><Type>-type\<close>, and null when none occurs;
  both whatever the category, so a gender descriptor carries a region or a type whenever
  the line names one.
\<close>

theorem parse_quest_gender_field:
  assumes "parse_quest line = Inr q"
  shows "(q_gender q \<noteq> None \<longleftrightarrow> q_type q = ''gender'') \<and>
         first_named spec_region_names (\<lambda>r. str_in r line) (q_region q) \<and>
         first_named types (\<lambda>t. contains_ci t line \<or> str_in (t @ ''-type'') line)
           (q_pokemon_type q) \<and>
         (q_region q \<noteq> None \<longleftrightarrow> names_region line) \<and>
         (q_pokemon_type q \<noteq> None \<longleftrightarrow> names_type line)"
proof -
  from assms have f: "q_type q = fst (quest_type_and_gender line)"
    "q_gender q = snd (quest_type_and_gender line)"
    "q_region q = detect_region line" "q_pokemon_type q = detect_type line"
    by (auto simp: parse_quest_eq split: sum.splits)
  show ?thesis
    unfolding f
    using quest_type_and_gender_bound [of line] detect_region_named [of line]
      detect_type_named [of line] detect_region_names [of line] detect_type_names [of line]
    by simp
qed

theorem parse_quest_gender_field_witness:
  "parse_quest ''Catch 4 male Johto'' =
     Inr \<lparr>q_text = ''Catch 4 male Johto'', q_type = ''gender'', q_region = Some ''Johto'',
          q_pokemon_type = None, q_count = 4, q_gender = Some ''male''\<rparr> \<and>
   names_region ''Catch 4 male Johto'' \<and> \<not> names_type ''Catch 4 male Johto'' \<and>
   first_named spec_region_names (\<lambda>r. str_in r ''Catch 4 male Johto'') (Some ''Johto'')"
proof -
  let ?l = "''Catch 4 male Johto''"
  let ?q = "\<lparr>q_text = ?l, q_type = ''gender'', q_region = Some ''Johto'',
             q_pokemon_type = None, q_count = 4, q_gender = Some ''male''\<rparr>"
  have p: "parse_quest ?l = Inr ?q" by code_simp
  from parse_quest_gender_field [OF p] p show ?thesis by simp
qed

section \<open>The count of a quest\<close>

text \<open>
  Claim C9 says that the count is the integer captured by the first occurrence of the
  pattern, for every line. When that occurrence captures more than 4300 digits, \<^verbatim>\<open>int\<close>
  raises \<^verbatim>\<open>ValueError\<close> on line 156 and no count is set: so it is on Release followed by
  4301 digits.
\<close>

theorem parse_quest_count_too_long:
  "first_count_pattern (''Release'' @ '' '' @ replicate 4301 (CHR ''7'')) 0
     (replicate 4301 (CHR ''7'')) \<and>
   parse_quest (''Release'' @ '' '' @ replicate 4301 (CHR ''7'')) = Inl ValueError"
proof -
  have n: "(4300 :: nat) < 4301" by simp
  have d: "is_digit (CHR ''7'')" by code_simp
  have k: "lower ''Release'' = lower ''Catch'' \<or> lower ''Release'' = lower ''Release'' \<or>
        lower ''Release'' = lower ''Breed''" by simp
  from parse_quest_long_count [OF n d k] show ?thesis by (rule conjI)
qed

text \<open>
  Claim C9 as amended. For every line, whatever its category: when the first occurrence
  in the line of one of Catch, Release, Breed (in any case) followed by white space and
  an integer captures at most 4300 digits, \<open>parse_quest\<close> returns a descriptor whose count
  is that integer; when it captures more, \<open>parse_quest\<close> raises \<^verbatim>\<open>ValueError\<close>; and when the
  line has no such occurrence, the descriptor has count 0. The line "Breed 5 Pokemon"
  (with e-acute) yields category breed and count 5.
\<close>

theorem parse_quest_count:
  "(first_count_pattern line i ds \<and> length ds \<le> 4300 \<longrightarrow>
      (\<exists>q. parse_quest line = Inr q \<and> q_count q = int_of_digits ds)) \<and>
   (first_count_pattern line i ds \<and> 4300 < length ds \<longrightarrow> parse_quest line = Inl ValueError) \<and>
   ((\<forall>j ds'. \<not> count_pattern_at line j ds') \<longrightarrow>
      (\<exists>q. parse_quest line = Inr q \<and> q_count q = 0)) \<and>
   (\<exists>q. parse_quest (pokemon_line ''Breed 5 '' []) = Inr q \<and>
        q_type q = ''breed'' \<and> q_count q = 5)"
proof (intro conjI impI)
  assume "first_count_pattern line i ds \<and> length ds \<le> 4300"
  then have "re_search line = Some ds" "length ds \<le> 4300" by (auto dest: re_search_first)
  then have "extract_count line = Inr (int_of_digits ds)" by (simp add: extract_count_Inr)
  then show "\<exists>q. parse_quest line = Inr q \<and> q_count q = int_of_digits ds"
    by (simp add: parse_quest_eq)
next
  assume "first_count_pattern line i ds \<and> 4300 < length ds"
  then have "count_too_long line" unfolding count_too_long_def by blast
  then show "parse_quest line = Inl ValueError" by (simp add: parse_quest_Inl_iff)
next
  assume "\<forall>j ds'. \<not> count_pattern_at line j ds'"
  then have "re_search line = None" by (simp add: re_search_None_iff)
  then have "extract_count line = Inr 0" by (simp add: extract_count_Inr)
  then show "\<exists>q. parse_quest line = Inr q \<and> q_count q = 0" by (simp add: parse_quest_eq)
next
  show "\<exists>q. parse_quest (pokemon_line ''Breed 5 '' []) = Inr q \<and>
        q_type q = ''breed'' \<and> q_count q = 5"
    by (simp add: parse_breed_example)
qed

theorem parse_quest_count_witness:
  "first_count_pattern ''1. Catch 12 Fire'' 3 ''12'' \<and>
   (\<exists>q. parse_quest ''1. Catch 12 Fire'' = Inr q \<and> q_count q = 12)"
proof -
  let ?l = "''1. Catch 12 Fire''"
  have none: "match_here (drop 0 ?l) = None" "match_here (drop 1 ?l) = None"
    "match_here (drop 2 ?l) = None"
    by code_simp+
  have here: "match_here (drop 3 ?l) = Some ''12''" by code_simp
  have len: "3 \<le> length ?l" by simp
  have at: "count_pattern_at ?l 3 ''12''"
    unfolding count_pattern_at_def match_here_iff [symmetric] using here len by blast
  have before: "\<forall>j < 3. \<forall>ds'. \<not> count_pattern_at ?l j ds'"
  proof (intro allI impI)
    fix j :: nat and ds'
    assume "j < 3"
    then consider "j = 0" | "j = 1" | "j = 2" by arith
    then have "match_here (drop j ?l) = None" using none by cases simp_all
    then show "\<not> count_pattern_at ?l j ds'"
      unfolding count_pattern_at_def match_here_iff [symmetric] by simp
  qed
  have first: "first_count_pattern ?l 3 ''12''"
    unfolding first_count_pattern_def using at before by blast
  have short: "length ''12'' \<le> 4300" by simp
  have v: "int_of_digits ''12'' = 12" by code_simp
  from parse_quest_count [of ?l 3 "''12''"] first short
  obtain q where "parse_quest ?l = Inr q" "q_count q = int_of_digits ''12''" by blast
  with v first show ?thesis by simp
qed

section \<open>Facts about the scans\<close>

lemma gender_scan_eq:
  "gender_scan self gp limit p rows ms = scan_rows (gender_ok self gp p) limit p rows ms"
  by (induction rows arbitrary: ms) (auto simp: gender_ok_def split: option.splits)

lemma gender_tiers_eq:
  "gender_tiers self gp limit ps ms = scan_tiers (gender_ok self gp) limit (pokemon_data self) ps ms"
  by (induction ps arbitrary: ms) (simp_all add: gender_scan_eq)

lemma type_region_scan_eq:
  "type_region_scan self qi limit p rows ms = scan_rows (type_region_ok self qi p) limit p rows ms"
  by (induction rows arbitrary: ms) (auto simp: type_region_ok_def split: option.splits)

lemma type_region_tiers_eq:
  "type_region_tiers self qi limit ps ms =
     scan_tiers (type_region_ok self qi) limit (pokemon_data self) ps ms"
  by (induction ps arbitrary: ms) (simp_all add: type_region_scan_eq)

lemma scan_rows_set:
  "m \<in> set (scan_rows ok limit p rows ms) \<Longrightarrow>
   m \<in> set ms \<or> (\<exists>(k, data) \<in> set rows. ok k data \<and> m = with_spawn_rate data p)"
proof (induction rows arbitrary: ms)
  case Nil
  then show ?case by simp
next
  case (Cons row rest)
  obtain k data where row: "row = (k, data)" by (cases row)
  from Cons.prems consider
      "m \<in> set ms"
    | "m \<in> set (scan_rows ok limit p rest ms)"
    | "ok k data" "m \<in> set (scan_rows ok limit p rest (ms @ [with_spawn_rate data p]))"
    unfolding row by (auto split: if_splits)
  then show ?case
  proof cases
    case 1
    then show ?thesis by simp
  next
    case 2
    from Cons.IH [OF this] show ?thesis by auto
  next
    case 3
    from Cons.IH [OF 3(2)] 3(1) show ?thesis unfolding row by auto
  qed
qed

lemma scan_tiers_set:
  "m \<in> set (scan_tiers ok limit rows ps ms) \<Longrightarrow>
   m \<in> set ms \<or>
   (\<exists>p \<in> set ps. \<exists>(k, data) \<in> set rows. ok p k data \<and> m = with_spawn_rate data p)"
proof (induction ps arbitrary: ms)
  case Nil
  then show ?case by simp
next
  case (Cons p ps)
  show ?case
  proof (cases "limit \<le> int (length ms)")
    case True
    with Cons.prems show ?thesis by simp
  next
    case False
    with Cons.prems have "m \<in> set (scan_tiers ok limit rows ps (scan_rows (ok p) limit p rows ms))"
      by simp
    from Cons.IH [OF this] show ?thesis
    proof
      assume "m \<in> set (scan_rows (ok p) limit p rows ms)"
      from scan_rows_set [OF this] show ?thesis by auto
    next
      assume "\<exists>p \<in> set ps. \<exists>(k, data) \<in> set rows. ok p k data \<and> m = with_spawn_rate data p"
      then show ?thesis by auto
    qed
  qed
qed

lemma scan_tiers_nonpositive: "limit \<le> 0 \<Longrightarrow> scan_tiers ok limit rows ps [] = []"
  by (cases ps) simp_all

lemma py_slice_to_subset: "set (py_slice_to xs n) \<subseteq> set xs"
  by (auto simp: py_slice_to_def dest: in_set_takeD)

lemma py_slice_to_length: "0 \<le> n \<Longrightarrow> length (py_slice_to xs n) \<le> nat n"
  by (simp add: py_slice_to_def)

lemma py_slice_to_Nil: "py_slice_to [] n = []"
  by (simp add: py_slice_to_def)

lemma scan_rows_none:
  "(\<And>k data. \<not> ok k data) \<Longrightarrow> scan_rows ok limit p rows ms = ms"
  by (induction rows arbitrary: ms) auto

lemma scan_tiers_none:
  "(\<And>p k data. \<not> ok p k data) \<Longrightarrow> scan_tiers ok limit rows ps ms = ms"
  by (induction ps arbitrary: ms) (simp_all add: scan_rows_none)

lemma scan_tiers_False: "scan_tiers (\<lambda>p k data. False) limit rows ps ms = ms"
  by (rule scan_tiers_none) simp

lemma accept_skip:
  "q_type qi \<noteq> ''gender'' \<Longrightarrow> q_type qi \<noteq> ''type_region'' \<Longrightarrow>
   accept self qi = (\<lambda>p k data. False)"
  by (simp add: accept_def)

lemma accept_gender:
  "q_type qi = ''gender'' \<Longrightarrow> accept self qi = gender_ok self (gender_set self (q_gender qi))"
  by (simp add: accept_def)

lemma accept_type_region:
  "q_type qi = ''type_region'' \<Longrightarrow> accept self qi = type_region_ok self qi"
  by (simp add: accept_def)

lemma find_matching_pokemon_scan:
  "find_matching_pokemon self qi limit =
     py_slice_to (scan_tiers (accept self qi) limit (pokemon_data self) spawn_priorities []) limit"
proof -
  consider (skip) "q_type qi \<in> set [''breed'', ''release'', ''generic_catch'', ''unknown'']"
    | (gender) "q_type qi = ''gender''"
    | (type_region) "q_type qi = ''type_region''"
    | (other) "q_type qi \<notin> set [''breed'', ''release'', ''generic_catch'', ''unknown'']"
        "q_type qi \<noteq> ''gender''" "q_type qi \<noteq> ''type_region''"
    by blast
  then show ?thesis
  proof cases
    case skip
    then have ne: "q_type qi \<noteq> ''gender''" "q_type qi \<noteq> ''type_region''" by auto
    have "find_matching_pokemon self qi limit = []"
      using skip unfolding find_matching_pokemon_def Let_def by simp
    then show ?thesis
      by (simp add: accept_skip [OF ne] scan_tiers_False py_slice_to_Nil)
  next
    case gender
    then have "q_type qi \<notin> set [''breed'', ''release'', ''generic_catch'', ''unknown'']" by simp
    then have "find_matching_pokemon self qi limit =
        py_slice_to (gender_tiers self (gender_set self (q_gender qi)) limit spawn_priorities [])
          limit"
      using gender unfolding find_matching_pokemon_def Let_def by simp
    then show ?thesis
      by (simp only: accept_gender [OF gender] gender_tiers_eq)
  next
    case type_region
    then have 1: "q_type qi \<notin> set [''breed'', ''release'', ''generic_catch'', ''unknown'']"
      and 2: "q_type qi \<noteq> ''gender''" by simp_all
    have "find_matching_pokemon self qi limit =
        py_slice_to (type_region_tiers self qi limit spawn_priorities []) limit"
      using 1 2 type_region unfolding find_matching_pokemon_def Let_def
      by simp
    then show ?thesis
      by (simp only: accept_type_region [OF type_region] type_region_tiers_eq)
  next
    case other
    have "find_matching_pokemon self qi limit = py_slice_to [] limit"
      using other unfolding find_matching_pokemon_def Let_def by simp
    then show ?thesis
      by (simp add: accept_skip [OF other(2,3)] scan_tiers_False)
  qed
qed

lemma find_matching_pokemon_origin:
  assumes "m \<in> set (find_matching_pokemon self qi limit)"
  shows "\<exists>p \<in> set spawn_priorities. \<exists>(k, data) \<in> set (pokemon_data self).
           accept self qi p k data \<and> m = with_spawn_rate data p"
proof -
  let ?all = "scan_tiers (accept self qi) limit (pokemon_data self) spawn_priorities []"
  from assms have "m \<in> set (py_slice_to ?all limit)"
    by (simp only: find_matching_pokemon_scan)
  with py_slice_to_subset [of ?all limit] have "m \<in> set ?all" by (rule subsetD)
  from scan_tiers_set [OF this] show ?thesis by simp
qed

lemma accept_facts:
  "accept self qi p k data \<Longrightarrow>
   \<not> is_regional_variant (name data) \<and> spawn_rates self k = Some p"
  by (auto simp: accept_def gender_ok_def type_region_ok_def split: if_splits)

lemma find_matching_pokemon_length: "length (find_matching_pokemon self qi limit) \<le> nat limit"
proof (cases "0 \<le> limit")
  case True
  then show ?thesis unfolding find_matching_pokemon_scan by (rule py_slice_to_length)
next
  case False
  then have "limit \<le> 0" by simp
  then show ?thesis
    unfolding find_matching_pokemon_scan by (simp add: scan_tiers_nonpositive py_slice_to_Nil)
qed

lemma with_spawn_rate_simps:
  "dex (with_spawn_rate d p) = dex d" "name (with_spawn_rate d p) = name d"
  "spawn_rate (with_spawn_rate d p) = p" "region (with_spawn_rate d p) = region d"
  "type1 (with_spawn_rate d p) = type1 d" "type2 (with_spawn_rate d p) = type2 d"
  by (simp_all add: with_spawn_rate_def)

lemma scan_rows_full: "limit \<le> int (length ms) \<Longrightarrow> scan_rows ok limit p rows ms = ms"
  by (cases rows) auto

lemma scan_tiers_full: "limit \<le> int (length ms) \<Longrightarrow> scan_tiers ok limit rows ps ms = ms"
  by (cases ps) auto

lemma scan_rows_take:
  assumes "distinct (map fst rows)" and "\<forall>(k, d) \<in> set rows. dex d = k"
    and "\<forall>(k, d) \<in> set rows. ok k d \<longrightarrow> \<not> list_ex (\<lambda>m. dex m = k) ms"
    and "int (length ms) < limit"
  shows "scan_rows ok limit p rows ms =
           take (nat limit)
             (ms @ map (\<lambda>(k, d). with_spawn_rate d p) (filter (\<lambda>(k, d). ok k d) rows))"
  using assms
proof (induction rows arbitrary: ms)
  case Nil
  then show ?case by simp
next
  case (Cons row rest)
  obtain k d where row: "row = (k, d)" by (cases row)
  let ?new = "\<lambda>rs. map (\<lambda>(k, d). with_spawn_rate d p) (filter (\<lambda>(k, d). ok k d) rs)"
  have rest: "distinct (map fst rest)" "\<forall>(k, d) \<in> set rest. dex d = k"
    using Cons.prems(1,2) by auto
  have inv_rest: "\<forall>(k, d) \<in> set rest. ok k d \<longrightarrow> \<not> list_ex (\<lambda>m. dex m = k) ms"
    using Cons.prems(3) by auto
  have small: "\<not> limit \<le> int (length ms)" using Cons.prems(4) by simp
  show ?case
  proof (cases "ok k d")
    case False
    have "scan_rows ok limit p (row # rest) ms = scan_rows ok limit p rest ms"
      using False small unfolding row by simp
    also have "\<dots> = take (nat limit) (ms @ ?new rest)"
      by (rule Cons.IH [OF rest inv_rest Cons.prems(4)])
    finally show ?thesis using False unfolding row by simp
  next
    case True
    then have nodup: "\<not> list_ex (\<lambda>m. dex m = k) ms"
      using Cons.prems(3) unfolding row by simp
    let ?x = "with_spawn_rate d p"
    have step: "scan_rows ok limit p (row # rest) ms = scan_rows ok limit p rest (ms @ [?x])"
      using True nodup small unfolding row by simp
    have new: "?new (row # rest) = ?x # ?new rest"
      using True unfolding row by simp
    have k_fresh: "k \<notin> fst ` set rest" using Cons.prems(1) unfolding row by simp
    have inv': "\<forall>(k', d') \<in> set rest. ok k' d' \<longrightarrow> \<not> list_ex (\<lambda>m. dex m = k') (ms @ [?x])"
    proof (clarify)
      fix k' d'
      assume in_rest: "(k', d') \<in> set rest" and ok': "ok k' d'"
        and ex: "list_ex (\<lambda>m. dex m = k') (ms @ [?x])"
      from in_rest inv_rest ok' have "\<not> list_ex (\<lambda>m. dex m = k') ms" by auto
      with ex have "dex ?x = k'" by (simp add: list_ex_iff)
      moreover have "dex d = k" using Cons.prems(2) unfolding row by simp
      ultimately have "k' = k" by (simp add: with_spawn_rate_simps)
      with in_rest k_fresh show False by force
    qed
    show ?thesis
    proof (cases "int (length (ms @ [?x])) < limit")
      case True
      have "scan_rows ok limit p rest (ms @ [?x]) = take (nat limit) ((ms @ [?x]) @ ?new rest)"
        by (rule Cons.IH [OF rest inv' True])
      with step new show ?thesis by simp
    next
      case False
      then have full: "limit \<le> int (length (ms @ [?x]))" by simp
      with small have "nat limit = length (ms @ [?x])" by simp
      then have "take (nat limit) (ms @ ?new (row # rest)) = ms @ [?x]"
        unfolding new by simp
      with step scan_rows_full [OF full] show ?thesis by simp
    qed
  qed
qed

lemma tier_major_Cons:
  "tier_major ok rows (p # ps) =
     map (\<lambda>(k, d). with_spawn_rate d p) (filter (\<lambda>(k, d). ok p k d) rows) @ tier_major ok rows ps"
  by (simp add: tier_major_def)

lemma tier_major_Nil: "tier_major ok rows [] = []"
  by (simp add: tier_major_def)

lemma scan_tiers_take:
  assumes "distinct (map fst rows)" and "\<forall>(k, d) \<in> set rows. dex d = k"
    and "\<And>p k d. ok p k d \<Longrightarrow> rate k = Some p"
    and "distinct ps"
    and "\<forall>m \<in> set ms. \<forall>p \<in> set ps. rate (dex m) \<noteq> Some p"
    and "int (length ms) < limit"
  shows "scan_tiers ok limit rows ps ms = take (nat limit) (ms @ tier_major ok rows ps)"
  using assms(4-6)
proof (induction ps arbitrary: ms)
  case Nil
  then show ?case by (simp add: tier_major_Nil)
next
  case (Cons p ps)
  let ?new = "map (\<lambda>(k, d). with_spawn_rate d p) (filter (\<lambda>(k, d). ok p k d) rows)"
  let ?ms' = "scan_rows (ok p) limit p rows ms"
  have nodup: "\<forall>(k, d) \<in> set rows. ok p k d \<longrightarrow> \<not> list_ex (\<lambda>m. dex m = k) ms"
  proof (clarify)
    fix k d
    assume "ok p k d" and ex: "list_ex (\<lambda>m. dex m = k) ms"
    then have "rate k = Some p" using assms(3) by blast
    moreover from ex obtain m where "m \<in> set ms" "dex m = k" by (auto simp: list_ex_iff)
    ultimately show False using Cons.prems(2) by auto
  qed
  have ms': "?ms' = take (nat limit) (ms @ ?new)"
    by (rule scan_rows_take [OF assms(1,2) nodup Cons.prems(3)])
  have step: "scan_tiers ok limit rows (p # ps) ms = scan_tiers ok limit rows ps ?ms'"
    using Cons.prems(3) by simp
  show ?case
  proof (cases "int (length ?ms') < limit")
    case True
    then have whole: "?ms' = ms @ ?new" unfolding ms' by (simp add: min_def split: if_splits)
    have inv': "\<forall>m \<in> set ?ms'. \<forall>q \<in> set ps. rate (dex m) \<noteq> Some q"
    proof (intro ballI)
      fix m q
      assume "m \<in> set ?ms'" and q: "q \<in> set ps"
      then have "m \<in> set (ms @ ?new)" by (simp only: whole)
      then have "m \<in> set ms \<or> m \<in> set ?new" by (simp only: set_append Un_iff)
      then consider "m \<in> set ms" | "m \<in> set ?new" by blast
      then show "rate (dex m) \<noteq> Some q"
      proof cases
        case 1
        with Cons.prems(2) q show ?thesis by simp
      next
        case 2
        then obtain k d where kd: "(k, d) \<in> set rows" "ok p k d" "m = with_spawn_rate d p"
          by auto
        then have "dex m = k" using assms(2) by (auto simp: with_spawn_rate_simps)
        moreover have "rate k = Some p" using kd(2) assms(3) by blast
        moreover have "p \<noteq> q" using Cons.prems(1) q by auto
        ultimately show ?thesis by simp
      qed
    qed
    have "distinct ps" using Cons.prems(1) by simp
    from Cons.IH [OF this inv' True]
    have "scan_tiers ok limit rows ps ?ms' = take (nat limit) (?ms' @ tier_major ok rows ps)" .
    with step show ?thesis unfolding whole by (simp add: tier_major_Cons)
  next
    case False
    then have full: "limit \<le> int (length ?ms')" by simp
    then have len: "nat limit \<le> length (ms @ ?new)" unfolding ms' by simp
    have "take (nat limit) (ms @ tier_major ok rows (p # ps)) = take (nat limit) ((ms @ ?new) @ tier_major ok rows ps)"
      by (simp add: tier_major_Cons)
    also have "\<dots> = take (nat limit) (ms @ ?new)"
      using len by (simp only: take_append) simp
    finally show ?thesis using step scan_tiers_full [OF full] ms' by simp
  qed
qed

lemma spawn_priorities_distinct: "distinct spawn_priorities"
  by (simp add: spawn_priorities_def)

lemma wf_pokemon_data_iff:
  "wf_pokemon_data rows \<longleftrightarrow>
     distinct (map fst rows) \<and> (\<forall>(k, d) \<in> set rows. dex d = k \<and> region d = get_region k)"
  by (auto simp: wf_pokemon_data_def list_all_iff)

lemma find_matching_pokemon_tier_major:
  assumes "wf_pokemon_data (pokemon_data self)"
  shows "find_matching_pokemon self qi limit =
           take (nat limit) (tier_major (accept self qi) (pokemon_data self) spawn_priorities)"
proof (cases "0 < limit")
  case False
  then have "limit \<le> 0" by simp
  then show ?thesis
    unfolding find_matching_pokemon_scan by (simp add: scan_tiers_nonpositive py_slice_to_Nil)
next
  case True
  have d: "distinct (map fst (pokemon_data self))"
    and k: "\<forall>(k, d) \<in> set (pokemon_data self). dex d = k"
    using assms by (auto simp: wf_pokemon_data_iff)
  have r: "\<And>p k d. accept self qi p k d \<Longrightarrow> spawn_rates self k = Some p"
    by (simp add: accept_facts)
  have "scan_tiers (accept self qi) limit (pokemon_data self) spawn_priorities [] =
          take (nat limit)
            ([] @ tier_major (accept self qi) (pokemon_data self) spawn_priorities)"
    by (rule scan_tiers_take [OF d k r spawn_priorities_distinct]) (use True in simp_all)
  then show ?thesis
    unfolding find_matching_pokemon_scan using True by (simp add: py_slice_to_def)
qed

section \<open>Type and region constraints\<close>


lemma tier_major_set:
  "m \<in> set (tier_major ok rows ps) \<longleftrightarrow>
     (\<exists>p \<in> set ps. \<exists>(k, d) \<in> set rows. ok p k d \<and> m = with_spawn_rate d p)"
  by (auto simp: tier_major_def)

lemma take_whole: "length (take n xs) < n \<Longrightarrow> take n xs = xs"
  by (simp add: min_def split: if_splits)

lemma criteria_append_both:
  assumes "q_region qi = Some r" "r \<noteq> []" "q_pokemon_type qi = Some t" "t \<noteq> []"
  shows "criteria_append qi d \<longleftrightarrow> region d = r \<and> (type1 d = t \<or> type2 d = Some t)"
  using assms by (auto simp: criteria_append_def truthy_simps)

lemma criteria_append_type_only:
  assumes "q_region qi = None" "q_pokemon_type qi = Some t" "t \<noteq> []"
  shows "criteria_append qi d \<longleftrightarrow> type1 d = t \<or> type2 d = Some t"
  using assms by (auto simp: criteria_append_def truthy_simps)

lemma criteria_append_neither:
  assumes "q_region qi = None" "q_pokemon_type qi = None"
  shows "\<not> criteria_append qi d"
  using assms by (simp add: criteria_append_def truthy_simps)

text \<open>
  Claim C2 says that a type_region descriptor with neither a region nor a type accepts
  every tier-eligible row. The chain of lines 234-242 has a branch for both constraints,
  for the type and for the region, and no \<^verbatim>\<open>else\<close>: with neither, nothing is appended. On
  the example table three rows are tier-eligible and the result is empty.
\<close>

theorem find_matching_pokemon_neither_example:
  "find_matching_pokemon ex_cog (ex_quest None None) 5 = [] \<and>
   map name (take 5 (tier_major (tier_eligible ex_cog) (pokemon_data ex_cog) spawn_priorities)) =
     [''Chikorita'', ''Charmander'', ''Bulbasaur'']"
  by code_simp

text \<open>
  Claim C2 as amended. For every type_region descriptor whose region and type are both
  null, \<open>find_matching_pokemon\<close> returns the empty list, for every table and limit.
\<close>

theorem find_matching_pokemon_neither:
  assumes "q_type qi = ''type_region''" and "q_region qi = None" and "q_pokemon_type qi = None"
  shows "find_matching_pokemon self qi limit = []"
proof -
  have "\<not> accept self qi p k d" for p k d
    using assms by (simp add: accept_type_region type_region_ok_def criteria_append_neither)
  then have "scan_tiers (accept self qi) limit (pokemon_data self) spawn_priorities [] = []"
    by (rule scan_tiers_none)
  then show ?thesis unfolding find_matching_pokemon_scan by (simp add: py_slice_to_Nil)
qed

theorem find_matching_pokemon_neither_witness:
  "find_matching_pokemon ex_cog (ex_quest None None) 2 = []"
  by (rule find_matching_pokemon_neither) (simp_all add: ex_quest_def)

text \<open>
  Claim C3 says that the type-only result is a superset of the result with both
  constraints. Both searches stop at the limit: with limit 1, Grass in Kanto gives
  Bulbasaur, and Grass alone gives Chikorita, which comes first in the rarest tier.
\<close>

theorem find_matching_pokemon_superset_example:
  "\<not> set (find_matching_pokemon ex_cog (ex_quest (Some ''Kanto'') (Some ''Grass'')) 1)
       \<subseteq> set (find_matching_pokemon ex_cog
                 ((ex_quest (Some ''Kanto'') (Some ''Grass''))\<lparr>q_region := None\<rparr>) 1)"
  by code_simp

text \<open>
  Claim C3 as amended. For a type_region descriptor with a region \<open>r\<close> and a type \<open>t\<close>,
  every returned row has region \<open>r\<close> (the region derived from its dex, on a loaded table)
  and has \<open>t\<close> as its first or second type; and on a loaded table, whenever the type-only
  search returns fewer rows than the limit, its result is a superset of the result with
  both constraints.
\<close>

theorem find_matching_pokemon_both:
  assumes "q_type qi = ''type_region''"
    and "q_region qi = Some r" and "r \<noteq> []"
    and "q_pokemon_type qi = Some t" and "t \<noteq> []"
  shows "(\<forall>m \<in> set (find_matching_pokemon self qi limit).
            region m = r \<and> (type1 m = t \<or> type2 m = Some t) \<and>
            (wf_pokemon_data (pokemon_data self) \<longrightarrow> get_region (dex m) = r)) \<and>
         (wf_pokemon_data (pokemon_data self) \<and>
          int (length (find_matching_pokemon self (qi\<lparr>q_region := None\<rparr>) limit)) < limit \<longrightarrow>
            set (find_matching_pokemon self qi limit)
              \<subseteq> set (find_matching_pokemon self (qi\<lparr>q_region := None\<rparr>) limit))"
proof (intro conjI ballI impI)
  fix m
  assume "m \<in> set (find_matching_pokemon self qi limit)"
  from find_matching_pokemon_origin [OF this]
  obtain p k d where kd: "(k, d) \<in> set (pokemon_data self)" "accept self qi p k d"
    "m = with_spawn_rate d p" by auto
  then have "criteria_append qi d"
    using assms(1) by (simp add: accept_type_region type_region_ok_def)
  then have c: "region d = r \<and> (type1 d = t \<or> type2 d = Some t)"
    by (simp add: criteria_append_both [OF assms(2-5)])
  show "region m = r" using c kd(3) by (simp add: with_spawn_rate_simps)
  show "type1 m = t \<or> type2 m = Some t" using c kd(3) by (simp add: with_spawn_rate_simps)
  assume "wf_pokemon_data (pokemon_data self)"
  then have "region d = get_region (dex d)" using kd(1) by (auto simp: wf_pokemon_data_iff)
  with c kd(3) show "get_region (dex m) = r" by (simp add: with_spawn_rate_simps)
next
  let ?qt = "qi\<lparr>q_region := None\<rparr>"
  assume h: "wf_pokemon_data (pokemon_data self) \<and>
          int (length (find_matching_pokemon self ?qt limit)) < limit"
  let ?tm = "tier_major (accept self ?qt) (pokemon_data self) spawn_priorities"
  have eq: "find_matching_pokemon self ?qt limit = take (nat limit) ?tm"
    using h by (simp add: find_matching_pokemon_tier_major)
  with h have "int (length (take (nat limit) ?tm)) < limit" by (simp only:)
  then have "length (take (nat limit) ?tm) < nat limit" by arith
  then have whole: "find_matching_pokemon self ?qt limit = ?tm"
    unfolding eq by (rule take_whole)
  have tq: "q_type ?qt = ''type_region''" "q_region ?qt = None" "q_pokemon_type ?qt = Some t"
    using assms by simp_all
  show "set (find_matching_pokemon self qi limit) \<subseteq> set (find_matching_pokemon self ?qt limit)"
  proof
    fix m
    assume "m \<in> set (find_matching_pokemon self qi limit)"
    from find_matching_pokemon_origin [OF this]
    obtain p k d where p: "p \<in> set spawn_priorities"
      and kd: "(k, d) \<in> set (pokemon_data self)" "accept self qi p k d"
        "m = with_spawn_rate d p" by auto
    from kd(2) have ok: "\<not> is_regional_variant (name d)" "spawn_rates self k = Some p"
        "criteria_append qi d"
      using assms(1) by (simp_all add: accept_type_region type_region_ok_def)
    from ok(3) have "type1 d = t \<or> type2 d = Some t"
      by (simp add: criteria_append_both [OF assms(2-5)])
    then have "criteria_append ?qt d"
      by (simp add: criteria_append_type_only [OF tq(2,3) assms(5)])
    with ok have "accept self ?qt p k d"
      by (simp add: accept_type_region [OF tq(1)] type_region_ok_def)
    with p kd(1,3) have "m \<in> set ?tm" unfolding tier_major_set by blast
    then show "m \<in> set (find_matching_pokemon self ?qt limit)" by (simp only: whole)
  qed
qed

lemma ex_rows_wf: "wf_pokemon_data (pokemon_data ex_cog)"
  by code_simp

theorem find_matching_pokemon_both_witness:
  "set (find_matching_pokemon ex_cog (ex_quest (Some ''Kanto'') (Some ''Grass'')) 5)
     \<subseteq> set (find_matching_pokemon ex_cog
               ((ex_quest (Some ''Kanto'') (Some ''Grass''))\<lparr>q_region := None\<rparr>) 5) \<and>
   map name (find_matching_pokemon ex_cog (ex_quest (Some ''Kanto'') (Some ''Grass'')) 5) =
     [''Bulbasaur'']"
proof -
  let ?q = "ex_quest (Some ''Kanto'') (Some ''Grass'')"
  have a: "q_type ?q = ''type_region''" "q_region ?q = Some ''Kanto''" "''Kanto'' \<noteq> []"
    "q_pokemon_type ?q = Some ''Grass''" "''Grass'' \<noteq> []"
    by (simp_all add: ex_quest_def)
  have len: "int (length (find_matching_pokemon ex_cog (?q\<lparr>q_region := None\<rparr>) 5)) < 5"
    by code_simp
  have names: "map name (find_matching_pokemon ex_cog ?q 5) = [''Bulbasaur'']"
    by code_simp
  from find_matching_pokemon_both [OF a, of ex_cog 5] ex_rows_wf len names
  show ?thesis by blast
qed

lemma lower_append_iff:
  "lower n = a @ p @ b \<longleftrightarrow>
     (\<exists>pre w post. n = pre @ w @ post \<and> lower pre = a \<and> lower w = p \<and> lower post = b)"
proof
  assume "lower n = a @ p @ b"
  then obtain pre rest where 1: "n = pre @ rest" "a = lower pre" "p @ b = lower rest"
    unfolding lower_def by (auto simp: map_eq_append_conv)
  from 1(3) obtain w post where 2: "rest = w @ post" "p = lower w" "b = lower post"
    unfolding lower_def by (auto simp: append_eq_map_conv)
  from 1 2 show "\<exists>pre w post. n = pre @ w @ post \<and> lower pre = a \<and> lower w = p \<and> lower post = b"
    by blast
next
  assume "\<exists>pre w post. n = pre @ w @ post \<and> lower pre = a \<and> lower w = p \<and> lower post = b"
  then show "lower n = a @ p @ b" unfolding lower_def by auto
qed

lemma is_regional_variant_iff:
  "is_regional_variant n \<longleftrightarrow>
     (\<exists>prefix \<in> set [''alolan'', ''galarian'', ''hisuian'', ''paldean''].
        \<exists>pre w post. n = pre @ w @ post \<and> lower w = prefix)"
proof -
  have "str_in p (lower n) \<longleftrightarrow> (\<exists>pre w post. n = pre @ w @ post \<and> lower w = p)" for p
    unfolding str_in_iff lower_append_iff by blast
  then show ?thesis
    unfolding is_regional_variant_def Let_def list_ex_iff by simp
qed

section \<open>Limit, tiers, variants and order\<close>

text \<open>
  Claim C6. For every descriptor, tables and limit, \<open>find_matching_pokemon\<close> returns at
  most \<open>limit\<close> rows (none for a limit below one), and every returned row comes from a
  row of the table whose chance entry exists and is one of 1/225, 1/337, 1/674; on a
  loaded table the chance entry of the returned dex is that label, so a dex with another
  label or with no entry is never returned.
\<close>

theorem find_matching_pokemon_bounded:
  "length (find_matching_pokemon self qi limit) \<le> nat limit \<and>
   (\<forall>m \<in> set (find_matching_pokemon self qi limit).
      spawn_rate m \<in> {''1/225'', ''1/337'', ''1/674''} \<and>
      (\<exists>(k, data) \<in> set (pokemon_data self).
         spawn_rates self k = Some (spawn_rate m) \<and> m = with_spawn_rate data (spawn_rate m)) \<and>
      (wf_pokemon_data (pokemon_data self) \<longrightarrow>
         spawn_rates self (dex m) = Some (spawn_rate m)))"
proof (intro conjI ballI)
  show "length (find_matching_pokemon self qi limit) \<le> nat limit"
    by (rule find_matching_pokemon_length)
next
  fix m
  assume "m \<in> set (find_matching_pokemon self qi limit)"
  from find_matching_pokemon_origin [OF this]
  obtain p k d where p: "p \<in> set spawn_priorities"
    and kd: "(k, d) \<in> set (pokemon_data self)" "accept self qi p k d" "m = with_spawn_rate d p"
    by auto
  have rate: "spawn_rates self k = Some p" using kd(2) by (simp add: accept_facts)
  have sr: "spawn_rate m = p" using kd(3) by (simp add: with_spawn_rate_simps)
  show "spawn_rate m \<in> {''1/225'', ''1/337'', ''1/674''}"
    using p sr by (simp add: spawn_priorities_def)
  show "\<exists>(k, data) \<in> set (pokemon_data self).
         spawn_rates self k = Some (spawn_rate m) \<and> m = with_spawn_rate data (spawn_rate m)"
    using kd(1,3) rate sr by (intro bexI [of _ "(k, d)"]) simp_all
  show "wf_pokemon_data (pokemon_data self) \<longrightarrow> spawn_rates self (dex m) = Some (spawn_rate m)"
  proof
    assume "wf_pokemon_data (pokemon_data self)"
    then have "dex d = k" using kd(1) by (auto simp: wf_pokemon_data_iff)
    then show "spawn_rates self (dex m) = Some (spawn_rate m)"
      using rate sr kd(3) by (simp add: with_spawn_rate_simps)
  qed
qed

theorem find_matching_pokemon_bounded_witness:
  "length (find_matching_pokemon ex_cog (ex_quest (Some ''Kanto'') None) 1) \<le> nat 1 \<and>
   map spawn_rate (find_matching_pokemon ex_cog (ex_quest (Some ''Kanto'') None) 1) = [''1/225''] \<and>
   spawn_rates ex_cog 4 = Some ''1/225''"
proof -
  let ?r = "find_matching_pokemon ex_cog (ex_quest (Some ''Kanto'') None) 1"
  have r: "?r = [\<lparr>name = ''Charmander'', type1 = ''Fire'', type2 = None, dex = 4,
                   region = ''Kanto'', spawn_rate = ''1/225''\<rparr>]"
    by code_simp
  from find_matching_pokemon_bounded [of ex_cog "ex_quest (Some ''Kanto'') None" 1] ex_rows_wf
  show ?thesis unfolding r by simp
qed

text \<open>
  Claim C8. For every descriptor and limit, no returned row has a name that
  \<open>is_regional_variant\<close> marks; and a name is marked exactly when one of alolan, galarian,
  hisuian, paldean occurs in it in any case.
\<close>

theorem find_matching_pokemon_no_variants:
  "(\<forall>m \<in> set (find_matching_pokemon self qi limit). \<not> is_regional_variant (name m)) \<and>
   (is_regional_variant n \<longleftrightarrow>
      (\<exists>prefix \<in> set [''alolan'', ''galarian'', ''hisuian'', ''paldean''].
         \<exists>pre w post. n = pre @ w @ post \<and> lower w = prefix))"
proof (intro conjI ballI)
  fix m
  assume "m \<in> set (find_matching_pokemon self qi limit)"
  from find_matching_pokemon_origin [OF this]
  obtain p k d where "accept self qi p k d" "m = with_spawn_rate d p" by auto
  then show "\<not> is_regional_variant (name m)"
    by (simp add: accept_facts with_spawn_rate_simps)
next
  show "is_regional_variant n \<longleftrightarrow>
      (\<exists>prefix \<in> set [''alolan'', ''galarian'', ''hisuian'', ''paldean''].
         \<exists>pre w post. n = pre @ w @ post \<and> lower w = prefix)"
    by (rule is_regional_variant_iff)
qed

theorem find_matching_pokemon_no_variants_witness:
  "map name (find_matching_pokemon ex_cog ex_gender_quest 5) = [''Charmander'', ''Bulbasaur''] \<and>
   \<not> is_regional_variant ''Charmander'' \<and> \<not> is_regional_variant ''Bulbasaur'' \<and>
   is_regional_variant ''Alolan Rattata''"
proof -
  let ?r = "find_matching_pokemon ex_cog ex_gender_quest 5"
  have r: "?r = [\<lparr>name = ''Charmander'', type1 = ''Fire'', type2 = None, dex = 4,
                   region = ''Kanto'', spawn_rate = ''1/225''\<rparr>,
                 \<lparr>name = ''Bulbasaur'', type1 = ''Grass'', type2 = Some ''Poison'', dex = 1,
                   region = ''Kanto'', spawn_rate = ''1/337''\<rparr>]"
    by code_simp
  have v: "is_regional_variant ''Alolan Rattata''" by code_simp
  from find_matching_pokemon_no_variants [of ex_cog ex_gender_quest 5 "''Alolan Rattata''"]
  have "\<forall>m \<in> set ?r. \<not> is_regional_variant (name m)" by (rule conjunct1)
  with v show ?thesis unfolding r by simp
qed

text \<open>
  Claim C7. On a loaded table the result is the first \<open>limit\<close> rows of the accepted rows
  listed tier after tier (1/225, then 1/337, then 1/674) and in table order inside a
  tier. It is not sorted by dex or by name: on the example table the female quest gives
  Charmander (dex 4) before Bulbasaur (dex 1).
\<close>

theorem find_matching_pokemon_order:
  "(wf_pokemon_data (pokemon_data self) \<longrightarrow>
      find_matching_pokemon self qi limit =
        take (nat limit) (tier_major (accept self qi) (pokemon_data self) spawn_priorities)) \<and>
   spawn_priorities = [''1/225'', ''1/337'', ''1/674''] \<and>
   map dex (find_matching_pokemon ex_cog ex_gender_quest 5) = [4, 1] \<and>
   map name (find_matching_pokemon ex_cog ex_gender_quest 5) = [''Charmander'', ''Bulbasaur'']"
proof (intro conjI impI)
  assume "wf_pokemon_data (pokemon_data self)"
  then show "find_matching_pokemon self qi limit =
        take (nat limit) (tier_major (accept self qi) (pokemon_data self) spawn_priorities)"
    by (rule find_matching_pokemon_tier_major)
next
  show "spawn_priorities = [''1/225'', ''1/337'', ''1/674'']" by (simp add: spawn_priorities_def)
next
  show "map dex (find_matching_pokemon ex_cog ex_gender_quest 5) = [4, 1]" by code_simp
next
  show "map name (find_matching_pokemon ex_cog ex_gender_quest 5) = [''Charmander'', ''Bulbasaur'']"
    by code_simp
qed

theorem find_matching_pokemon_order_witness:
  "find_matching_pokemon ex_cog (ex_quest None (Some ''Grass'')) 5 =
     take (nat 5)
       (tier_major (accept ex_cog (ex_quest None (Some ''Grass''))) (pokemon_data ex_cog)
          spawn_priorities) \<and>
   map dex (find_matching_pokemon ex_cog (ex_quest None (Some ''Grass'')) 5) = [152, 1]"
proof -
  have "map dex (find_matching_pokemon ex_cog (ex_quest None (Some ''Grass'')) 5) = [152, 1]"
    by code_simp
  with find_matching_pokemon_order [of ex_cog "ex_quest None (Some ''Grass'')" 5] ex_rows_wf
  show ?thesis by blast
qed

end
